theory Spec2Isabelle
  imports Main "HOL-Library.Sublist"
begin

section \<open>The container recreator script\<close>

text \<open>
  The development embeds the Node script that recreates Bedrock server containers from
  the data directories (the helpers \<open>requiresPortMapping\<close>, \<open>buildContainerEnv\<close>,
  \<open>applyNetworkConfig\<close>, \<open>applyPortConfig\<close>, \<open>getHostDataPath\<close> and the main function
  \<open>recreateServers\<close>). Pure helpers are HOL functions; the main function passes a state
  that holds the container runtime, the console and the calls made to the runtime.
\<close>

subsection \<open>JavaScript strings and truthiness\<close>

text \<open>
  \<open>String.prototype.toLowerCase\<close> on the letters A to Z; every other character is kept.
\<close>

definition toLowerCaseChar :: "char \<Rightarrow> char" where
  "toLowerCaseChar c =
     (let n = (of_char c :: nat) in if 65 \<le> n \<and> n \<le> 90 then char_of (n + 32) else c)"

definition toLowerCase :: "string \<Rightarrow> string" where
  "toLowerCase s = map toLowerCaseChar s"

text \<open>\<open>s.startsWith(p)\<close> and \<open>s.includes(p)\<close>.\<close>

definition startsWith :: "string \<Rightarrow> string \<Rightarrow> bool" where
  "startsWith s p = (take (length p) s = p)"

fun includes_str :: "string \<Rightarrow> string \<Rightarrow> bool" where
  "includes_str [] p = (p = [])"
| "includes_str (c # cs) p = (startsWith (c # cs) p \<or> includes_str cs p)"

text \<open>
  A value that is a string or absent (\<open>undefined\<close>, \<open>null\<close>) is truthy when it is a
  non-empty string; a number (an integer here) or absent is truthy when it is a number
  other than 0.
  \<open>a || b\<close> is \<open>a\<close> when \<open>a\<close> is truthy and \<open>b\<close> otherwise.
\<close>

definition truthy :: "string option \<Rightarrow> bool" where
  "truthy v = (case v of None \<Rightarrow> False | Some s \<Rightarrow> s \<noteq> [])"

definition js_or :: "string option \<Rightarrow> string option \<Rightarrow> string option" where
  "js_or a b = (if truthy a then a else b)"

definition or_default :: "string option \<Rightarrow> string \<Rightarrow> string" where
  "or_default a d = (case js_or a (Some d) of Some s \<Rightarrow> s | None \<Rightarrow> d)"

definition num_or_default :: "int option \<Rightarrow> int \<Rightarrow> int" where
  "num_or_default a d = (case a of None \<Rightarrow> d | Some n \<Rightarrow> if n = 0 then d else n)"

subsection \<open>Configuration and metadata\<close>

text \<open>
  The constants the script reads from the process environment:
  \<open>DATA_DIR = process.env.DATA_DIR || '/opt/minecraft-servers'\<close>,
  \<open>DOCKER_NETWORK = process.env.DOCKER_NETWORK || null\<close>, and \<open>ENABLE_SSH\<close>, true for
  the values \<open>true\<close>, \<open>TRUE\<close> and \<open>1\<close>.
\<close>

record config =
  DATA_DIR :: string
  DOCKER_NETWORK :: "string option"
  ENABLE_SSH :: bool

definition BEDROCK_IMAGE :: string where
  "BEDROCK_IMAGE = ''itzg/minecraft-bedrock-server''"

definition loadConfig :: "(string \<Rightarrow> string option) \<Rightarrow> config" where
  "loadConfig env =
     \<lparr> DATA_DIR = or_default (env ''DATA_DIR'') ''/opt/minecraft-servers'',
       DOCKER_NETWORK = js_or (env ''DOCKER_NETWORK'') None,
       ENABLE_SSH = (env ''ENABLE_SSH'' = Some ''true'' \<or> env ''ENABLE_SSH'' = Some ''TRUE''
                     \<or> env ''ENABLE_SSH'' = Some ''1'') \<rparr>"

text \<open>
  The object read from a server's \<open>metadata.json\<close>. The script reads the fields
  \<open>name\<close>, \<open>version\<close>, \<open>network\<close> (strings) and \<open>memory\<close> (a number), each of which may
  be missing. The file may hold more fields; \<open>port\<close> is the one the data model of the
  manager names, and the script never reads it. Fields that hold values of other types
  are not modelled; a file that holds \<open>null\<close> makes the first access to a field throw,
  as a file that cannot be read does.
\<close>

record metadata =
  name :: "string option"
  version :: "string option"
  network :: "string option"
  memory :: "int option"
  port :: "int option"

subsection \<open>Network policy\<close>

definition noPortMappingModes :: "string list" where
  "noPortMappingModes = [''macvlan'', ''ipvlan'']"

definition requiresPortMapping :: "config \<Rightarrow> metadata \<Rightarrow> bool" where
  "requiresPortMapping cfg md =
     (let networkMode = js_or (network md) (DOCKER_NETWORK cfg) in
      if \<not> truthy networkMode then True
      else \<not> list_ex (\<lambda>mode. includes_str (toLowerCase (the networkMode)) mode) noPortMappingModes)"

text \<open>
  The policy in the words of the specification. The effective network is the network of
  the metadata when it is set, else the global default; set means a non-empty string,
  as \<open>||\<close> has it. A name contains a word case-insensitively when some stretch of the
  name, as long as the word, equals the word once the case of the letters is ignored.
\<close>

definition effectiveNetwork :: "string option \<Rightarrow> metadata \<Rightarrow> string option" where
  "effectiveNetwork globalDefault md =
     (case network md of
        None \<Rightarrow> (case globalDefault of None \<Rightarrow> None | Some d \<Rightarrow> if d = [] then None else Some d)
      | Some n \<Rightarrow> if n \<noteq> [] then Some n
                  else (case globalDefault of None \<Rightarrow> None | Some d \<Rightarrow> if d = [] then None else Some d))"

definition sameIgnoringCase :: "string \<Rightarrow> string \<Rightarrow> bool" where
  "sameIgnoringCase u v = list_all2 (\<lambda>a b. toLowerCaseChar a = toLowerCaseChar b) u v"

definition containsIgnoringCase :: "string \<Rightarrow> string \<Rightarrow> bool" where
  "containsIgnoringCase s word =
     list_ex (\<lambda>i. sameIgnoringCase (take (length word) (drop i s)) word) [0..<Suc (length s)]"

definition directlyAddressable :: "string option \<Rightarrow> bool" where
  "directlyAddressable net =
     (case net of None \<Rightarrow> False
      | Some n \<Rightarrow> containsIgnoringCase n ''macvlan'' \<or> containsIgnoringCase n ''ipvlan'')"

subsection \<open>The container specification\<close>

text \<open>
  The object handed to \<open>docker.createContainer\<close>. \<open>HostConfig\<close> and its fields may be
  absent (\<open>applyNetworkConfig\<close> and \<open>applyPortConfig\<close> create an empty \<open>HostConfig\<close> when
  there is none). \<open>ExposedPorts\<close> lists the keys of the object (each value is \<open>{}\<close>);
  \<open>PortBindings\<close> maps a container port to the \<open>HostPort\<close> values bound to it.
\<close>

record hostConfig =
  Binds :: "string list option"
  RestartPolicy :: "string option"
  Memory :: "int option"
  NetworkMode :: "string option"
  PortBindings :: "(string \<times> string list) list option"

record containerConfig =
  Image :: string
  containerName :: string
  Labels :: "(string \<times> string) list"
  Env :: "string list"
  HostConfig :: "hostConfig option"
  ExposedPorts :: "string list option"

definition emptyHostConfig :: hostConfig where
  "emptyHostConfig = \<lparr> Binds = None, RestartPolicy = None, Memory = None, NetworkMode = None,
                       PortBindings = None \<rparr>"

definition buildContainerEnv :: "config \<Rightarrow> metadata \<Rightarrow> string list" where
  "buildContainerEnv cfg md =
     (let env = [''EULA=TRUE'',
                 ''VERSION='' @ or_default (version md) ''LATEST'',
                 ''SERVER_NAME='' @ or_default (name md) ''Bedrock Server'']
      in if ENABLE_SSH cfg then env @ [''ENABLE_SSH=TRUE''] else env)"

definition ensureHostConfig :: "containerConfig \<Rightarrow> containerConfig" where
  "ensureHostConfig cc =
     (case HostConfig cc of None \<Rightarrow> cc\<lparr>HostConfig := Some emptyHostConfig\<rparr> | Some h \<Rightarrow> cc)"

definition applyNetworkConfig :: "config \<Rightarrow> containerConfig \<Rightarrow> metadata \<Rightarrow> containerConfig" where
  "applyNetworkConfig cfg containerConfig md =
     (if truthy (js_or (network md) (DOCKER_NETWORK cfg)) then
        (let cc = ensureHostConfig containerConfig in
         cc\<lparr>HostConfig :=
              Some ((the (HostConfig cc))\<lparr>NetworkMode := js_or (network md) (DOCKER_NETWORK cfg)\<rparr>)\<rparr>)
      else containerConfig)"

text \<open>\<open>applyPortConfig\<close> changes the configuration and returns \<open>null\<close> or 19132.\<close>

definition applyPortConfig ::
  "config \<Rightarrow> containerConfig \<Rightarrow> metadata \<Rightarrow> containerConfig \<times> int option" where
  "applyPortConfig cfg containerConfig md =
     (if \<not> requiresPortMapping cfg md then
        (containerConfig\<lparr>ExposedPorts := Some [''19132/udp'']\<rparr>, None)
      else
        (let cc = ensureHostConfig containerConfig in
         (cc\<lparr>HostConfig :=
               Some ((the (HostConfig cc))\<lparr>PortBindings := Some [(''19132/udp'', [''19132''])]\<rparr>)\<rparr>,
          Some 19132)))"

text \<open>
  \<open>path.join\<close> of Node (POSIX) for two arguments: the arguments that are not empty are
  joined with \<open>/\<close> and the result is normalised. \<open>normalizeString\<close> goes through the
  segments between the separators: an empty segment and \<open>.\<close> are dropped, \<open>..\<close> takes
  back the segment before it, and stays only in a relative path that has nothing left to
  take back. \<open>normalize\<close> keeps a leading and a trailing separator, and gives \<open>.\<close> for an
  empty path.
\<close>

fun segments :: "string \<Rightarrow> string list" where
  "segments [] = [[]]"
| "segments (c # cs) =
     (if c = CHR ''/'' then [] # segments cs
      else (case segments cs of [] \<Rightarrow> [[c]] | s # ss \<Rightarrow> (c # s) # ss))"

definition pushSegment :: "bool \<Rightarrow> string list \<Rightarrow> string \<Rightarrow> string list" where
  "pushSegment allowAboveRoot res seg =
     (if seg = [] \<or> seg = ''.'' then res
      else if seg = ''..'' then
        (if res \<noteq> [] \<and> last res \<noteq> ''..'' then butlast res
         else if allowAboveRoot then res @ [''..''] else res)
      else res @ [seg])"

fun joinSegments :: "string list \<Rightarrow> string" where
  "joinSegments [] = []"
| "joinSegments [s] = s"
| "joinSegments (s # t # ss) = s @ ''/'' @ joinSegments (t # ss)"

definition normalizeString :: "string \<Rightarrow> bool \<Rightarrow> string" where
  "normalizeString p allowAboveRoot =
     joinSegments (foldl (pushSegment allowAboveRoot) [] (segments p))"

definition normalize :: "string \<Rightarrow> string" where
  "normalize p =
     (if p = [] then ''.''
      else
        (let isAbsolute = (hd p = CHR ''/'');
             trailingSeparator = (last p = CHR ''/'');
             q = normalizeString p (\<not> isAbsolute)
         in if q = [] then
              (if isAbsolute then ''/'' else if trailingSeparator then ''./'' else ''.'')
            else
              (let q' = (if trailingSeparator then q @ ''/'' else q)
               in if isAbsolute then ''/'' @ q' else q')))"

definition path_join :: "string \<Rightarrow> string \<Rightarrow> string" where
  "path_join a b =
     (let joined = (if a = [] then b else if b = [] then a else a @ ''/'' @ b)
      in if joined = [] then ''.'' else normalize joined)"

text \<open>
  The configuration that \<open>recreateServers\<close> builds for one server: the object literal,
  then \<open>applyNetworkConfig\<close>, then \<open>applyPortConfig\<close>, whose result is kept as
  \<open>portResult\<close>.
\<close>

definition initialContainerConfig ::
  "config \<Rightarrow> string \<Rightarrow> string \<Rightarrow> metadata \<Rightarrow> containerConfig" where
  "initialContainerConfig cfg hostServerPath serverId md =
     \<lparr> Image = BEDROCK_IMAGE,
       containerName = serverId,
       Labels = [(''server-id'', serverId),
                 (''server-name'', or_default (name md) ''Bedrock Server'')],
       Env = buildContainerEnv cfg md,
       HostConfig = Some \<lparr> Binds = Some [hostServerPath @ '':/data''],
                            RestartPolicy = Some ''unless-stopped'',
                            Memory = Some (num_or_default (memory md) 2147483648),
                            NetworkMode = None,
                            PortBindings = None \<rparr>,
       ExposedPorts = None \<rparr>"

definition buildContainerConfig ::
  "config \<Rightarrow> string \<Rightarrow> string \<Rightarrow> metadata \<Rightarrow> containerConfig \<times> int option" where
  "buildContainerConfig cfg hostServerPath serverId md =
     applyPortConfig cfg
       (applyNetworkConfig cfg (initialContainerConfig cfg hostServerPath serverId md) md) md"

text \<open>
  The host port that the specification gives a server that needs port mapping: the
  port stored in the metadata when there is one, else the service port.
\<close>

definition specifiedHostPort :: "metadata \<Rightarrow> int" where
  "specifiedHostPort md = (case port md of None \<Rightarrow> 19132 | Some p \<Rightarrow> p)"

subsection \<open>The data directory, the container runtime and the console\<close>

text \<open>
  The script only reads the data directory: whether \<open>DATA_DIR\<close> exists, what
  \<open>fs.readdir\<close> gives for it (an error message when it throws), and for every entry
  the file \<open>metadata.json\<close> in it: missing, unreadable (\<open>fs.readJson\<close> throws with the
  message) or the object it holds.
\<close>

datatype metadataFile = NoFile | Unreadable string | Json metadata

record dataDir =
  dirExists :: bool
  dirEntries :: "string + string list"
  metadataJson :: "string \<Rightarrow> metadataFile"

text \<open>
  What \<open>docker.listContainers\<close> and \<open>container.inspect\<close> report of a container, as far as
  the script reads it: \<open>Id\<close>, \<open>Labels\<close> and \<open>Mounts\<close> (both may be absent), and the
  status. The runtime also keeps the name of the container, which no two containers
  share.
\<close>

record mount =
  Source :: string
  Destination :: string

record containerInfo =
  Id :: string
  Name :: string
  InfoLabels :: "(string \<times> string) list option"
  Mounts :: "mount list option"
  Status :: string

text \<open>The calls made on the runtime, each kept with whether it returned normally.\<close>

datatype call =
    ListContainers
  | InspectImage string
  | Pull string
  | CreateContainer containerConfig
  | Start string
  | Inspect string

text \<open>
  The lines written with \<open>console.log\<close> and \<open>console.error\<close>, one constructor a
  statement, with the values the line is made of. \<open>LogMemory\<close> has the number of bytes;
  the text that \<open>formatBytes\<close> makes of it is left out.
\<close>

datatype line =
    LogSearchingMount
  | LogFoundContainers nat
  | LogNoExistingMount string
  | LogUsingMountSource string
  | LogFailedHostDataPath string
  | LogBanner
  | LogDataDirectory string
  | LogDockerNetwork string
  | LogSshEnabled bool
  | LogDataDirNotFound string
  | LogNoServerDirs
  | LogFoundServerDirs nat
  | LogSkipping string
  | LogProcessing string
  | LogName string
  | LogVersion string
  | LogNetwork string
  | LogMemory int
  | LogAlreadyExists string
  | LogErrorChecking string
  | LogPort int
  | LogPortNoMapping
  | LogPulling string
  | LogContainerCreated string
  | LogNetworkType "string option"
  | LogStatus string
  | LogError string
  | LogRule
  | LogSuccessfullyRecreated nat
  | LogFailed nat
  | LogAllRecreated
  | LogFatal string

text \<open>
  The state the script runs in. The runtime holds the containers and the images that
  are present locally. A pull takes time: \<open>pulling\<close> holds the images whose pull is under
  way, each with the number of calls on the runtime that are still to pass before the
  image is present, and \<open>pullTime\<close> is that number for a pull that starts. The runtime
  may refuse any call on grounds of its own: \<open>faults\<close> plans, call by call, whether the
  next call throws (and with what message); when the plan is used up no call is refused
  that way. \<open>idSupply\<close> holds the Ids the runtime gives to new containers.
\<close>

record world =
  containers :: "containerInfo list"
  images :: "string list"
  pulling :: "(string \<times> nat) list"
  pullTime :: nat
  faults :: "string option list"
  idSupply :: "string list"
  calls :: "(call \<times> bool) list"
  console :: "line list"

text \<open>
  A step of the script takes the state and returns the changed state with either the
  message of the error thrown (\<open>Inl\<close>) or a value (\<open>Inr\<close>). \<open>andThen\<close> is sequencing
  (\<open>await\<close>), \<open>tryCatch\<close> is \<open>try { ... } catch (err) { ... }\<close>.
\<close>

type_synonym 'a step = "world \<Rightarrow> (string + 'a) \<times> world"

definition ret :: "'a \<Rightarrow> 'a step" where
  "ret x w = (Inr x, w)"

definition andThen :: "'a step \<Rightarrow> ('a \<Rightarrow> 'b step) \<Rightarrow> 'b step" where
  "andThen m f w = (case m w of (Inl e, w') \<Rightarrow> (Inl e, w') | (Inr x, w') \<Rightarrow> f x w')"

definition tryCatch :: "'a step \<Rightarrow> (string \<Rightarrow> 'a step) \<Rightarrow> 'a step" where
  "tryCatch m handler w = (case m w of (Inl e, w') \<Rightarrow> handler e w' | (Inr x, w') \<Rightarrow> (Inr x, w'))"

definition consoleLog :: "line \<Rightarrow> unit step" where
  "consoleLog l w = (Inr (), w\<lparr>console := console w @ [l]\<rparr>)"

definition consoleLogs :: "line list \<Rightarrow> unit step" where
  "consoleLogs ls w = (Inr (), w\<lparr>console := console w @ ls\<rparr>)"

text \<open>
  Between two calls the pulls under way move on: \<open>progress\<close> makes present the images
  whose pull has no call left to wait for, and takes one call off the others.
\<close>

definition progress :: "world \<Rightarrow> world" where
  "progress w =
     w\<lparr>images := images w @ map fst (filter (\<lambda>p. snd p = 0) (pulling w)),
       pulling := map (\<lambda>p. (fst p, snd p - 1)) (filter (\<lambda>p. snd p \<noteq> 0) (pulling w))\<rparr>"

text \<open>
  A call on the runtime, made on the runtime as it is by then: refused when the plan
  says so, else it does what the runtime does for it (which may itself throw); the call
  and its outcome are recorded.
\<close>

definition isOk :: "string + 'a \<Rightarrow> bool" where
  "isOk r = (case r of Inl e \<Rightarrow> False | Inr x \<Rightarrow> True)"

definition dockerCall :: "call \<Rightarrow> 'a step \<Rightarrow> 'a step" where
  "dockerCall c run w =
     (case faults w of
        Some msg # plan \<Rightarrow>
          (Inl msg, (progress w)\<lparr>faults := plan, calls := calls w @ [(c, False)]\<rparr>)
      | _ \<Rightarrow> (case run ((progress w)\<lparr>faults := tl (faults w)\<rparr>) of
                (r, w') \<Rightarrow> (r, w'\<lparr>calls := calls w' @ [(c, isOk r)]\<rparr>)))"

text \<open>
  The runtime's side of the calls the script makes. Listing gives every container
  (\<open>all: true\<close>). Inspecting an image throws when the image is not present locally.
  \<open>docker.pull\<close> of the client library resolves as soon as the runtime has answered the
  request, with the stream of the progress reports; the script does not follow that
  stream, so the awaited call returns with the pull under way, and the image is present
  only when the pull is complete. Creating throws when the image of the configuration
  is not present locally (404) and when the name is taken by a container (409); else it
  adds a container with the name, the labels and the bind mounts of the configuration.
  Starting changes the status, inspecting a container gives its entry.
\<close>

definition bindMount :: "string \<Rightarrow> mount" where
  "bindMount b = \<lparr> Source = takeWhile (\<lambda>c. c \<noteq> CHR '':'') b,
                   Destination = drop 1 (dropWhile (\<lambda>c. c \<noteq> CHR '':'') b) \<rparr>"

definition bindsOf :: "containerConfig \<Rightarrow> string list" where
  "bindsOf cc = (case HostConfig cc of None \<Rightarrow> []
                 | Some h \<Rightarrow> (case Binds h of None \<Rightarrow> [] | Some bs \<Rightarrow> bs))"

definition listContainers :: "containerInfo list step" where
  "listContainers = dockerCall ListContainers (\<lambda>w. (Inr (containers w), w))"

definition inspectImage :: "string \<Rightarrow> unit step" where
  "inspectImage img =
     dockerCall (InspectImage img)
       (\<lambda>w. if img \<in> set (images w) then (Inr (), w)
            else (Inl (''No such image: '' @ img), w))"

definition pull :: "string \<Rightarrow> unit step" where
  "pull img =
     dockerCall (Pull img) (\<lambda>w. (Inr (), w\<lparr>pulling := pulling w @ [(img, pullTime w)]\<rparr>))"

definition createContainer :: "containerConfig \<Rightarrow> string step" where
  "createContainer cc =
     dockerCall (CreateContainer cc)
       (\<lambda>w. if Image cc \<notin> set (images w) then (Inl (''No such image: '' @ Image cc), w)
            else if containerName cc \<in> set (map Name (containers w)) then
              (Inl (''Conflict. The container name is already in use: '' @ containerName cc), w)
            else
              (let newId = (case idSupply w of [] \<Rightarrow> [] | i # ids \<Rightarrow> i) in
               (Inr newId,
                w\<lparr>containers := containers w @
                      [\<lparr> Id = newId, Name = containerName cc, InfoLabels = Some (Labels cc),
                         Mounts = Some (map bindMount (bindsOf cc)), Status = ''created'' \<rparr>],
                  idSupply := tl (idSupply w)\<rparr>)))"

definition start :: "string \<Rightarrow> unit step" where
  "start cid =
     dockerCall (Start cid)
       (\<lambda>w. (Inr (),
             w\<lparr>containers :=
                 map (\<lambda>c. if Id c = cid then c\<lparr>Status := ''running''\<rparr> else c) (containers w)\<rparr>))"

definition inspect :: "string \<Rightarrow> containerInfo step" where
  "inspect cid =
     dockerCall (Inspect cid)
       (\<lambda>w. case find (\<lambda>c. Id c = cid) (containers w) of
              None \<Rightarrow> (Inl (''No such container: '' @ cid), w)
            | Some c \<Rightarrow> (Inr c, w))"

subsection \<open>The host data path\<close>

text \<open>
  The loop of \<open>getHostDataPath\<close> over the listed containers: a container without
  \<open>Mounts\<close> is passed over, the first mount with destination \<open>/app/minecraft-data\<close> ends
  the loop.
\<close>

fun findMinecraftMount :: "containerInfo list \<Rightarrow> mount option" where
  "findMinecraftMount [] = None"
| "findMinecraftMount (c # cs) =
     (case Mounts c of
        None \<Rightarrow> findMinecraftMount cs
      | Some ms \<Rightarrow>
          (case find (\<lambda>m. Destination m = ''/app/minecraft-data'') ms of
             None \<Rightarrow> findMinecraftMount cs
           | Some mount \<Rightarrow> Some mount))"

definition getHostDataPath :: "config \<Rightarrow> string step" where
  "getHostDataPath cfg =
     tryCatch
       (andThen (consoleLog LogSearchingMount) (\<lambda>_.
        andThen listContainers (\<lambda>cs.
        andThen (consoleLog (LogFoundContainers (length cs))) (\<lambda>_.
        case findMinecraftMount cs of
          None \<Rightarrow>
            andThen (consoleLog (LogNoExistingMount (DATA_DIR cfg))) (\<lambda>_. ret (DATA_DIR cfg))
        | Some minecraftMount \<Rightarrow>
            andThen (consoleLog (LogUsingMountSource (Source minecraftMount))) (\<lambda>_.
            ret (Source minecraftMount))))))
       (\<lambda>err. andThen (consoleLog (LogFailedHostDataPath err)) (\<lambda>_. ret (DATA_DIR cfg)))"

subsection \<open>Processing one server directory\<close>

text \<open>\<open>c.Labels?.[key]\<close>.\<close>

definition labelOf :: "containerInfo \<Rightarrow> string \<Rightarrow> string option" where
  "labelOf c key = (case InfoLabels c of None \<Rightarrow> None | Some ls \<Rightarrow> map_of ls key)"

text \<open>
  The inner \<open>try\<close> of the loop body: list the containers and look for one labelled with
  the server; the result says whether the body leaves the iteration (\<open>continue\<close>). An
  error of the listing is caught and logged, and the body goes on.
\<close>

definition checkExisting :: "string \<Rightarrow> bool step" where
  "checkExisting serverId =
     tryCatch
       (andThen listContainers (\<lambda>cs.
          case find (\<lambda>c. labelOf c ''server-id'' = Some serverId) cs of
            None \<Rightarrow> ret False
          | Some existing \<Rightarrow>
              andThen (consoleLog (LogAlreadyExists (take 12 (Id existing)))) (\<lambda>_. ret True)))
       (\<lambda>err. andThen (consoleLog (LogErrorChecking err)) (\<lambda>_. ret False))"

text \<open>The check of the image: inspect it, and pull it when inspecting throws.\<close>

definition ensureImage :: "unit step" where
  "ensureImage =
     tryCatch (inspectImage BEDROCK_IMAGE)
       (\<lambda>err. andThen (consoleLog (LogPulling BEDROCK_IMAGE)) (\<lambda>_. pull BEDROCK_IMAGE))"

datatype flow = Continue | Completed

text \<open>The body from the construction of the configuration to the end of the \<open>try\<close>.\<close>

definition createAndStart :: "config \<Rightarrow> string \<Rightarrow> string \<Rightarrow> metadata \<Rightarrow> flow step" where
  "createAndStart cfg hostDataPath serverId md =
     (case buildContainerConfig cfg (path_join hostDataPath serverId) serverId md of
        (containerConfig, portResult) \<Rightarrow>
          andThen (consoleLog (case portResult of
                                 None \<Rightarrow> LogPortNoMapping
                               | Some p \<Rightarrow> if p = 0 then LogPortNoMapping else LogPort p)) (\<lambda>_.
          andThen ensureImage (\<lambda>_.
          andThen (createContainer containerConfig) (\<lambda>container.
          andThen (start container) (\<lambda>_.
          andThen (inspect container) (\<lambda>containerInfo.
          andThen (consoleLog (LogContainerCreated (take 12 (Id containerInfo)))) (\<lambda>_.
          andThen (if truthy (js_or (network md) (DOCKER_NETWORK cfg)) then
                     (case HostConfig containerConfig of
                        None \<Rightarrow> (\<lambda>w. (Inl ''TypeError'', w))
                      | Some h \<Rightarrow> consoleLog (LogNetworkType (NetworkMode h)))
                   else ret ()) (\<lambda>_.
          andThen (consoleLog (LogStatus (Status containerInfo))) (\<lambda>_.
          ret Completed)))))))))"

text \<open>The \<open>try\<close> block of the loop body, for the directory entry \<open>serverId\<close>.\<close>

definition readJson :: "dataDir \<Rightarrow> string \<Rightarrow> metadata step" where
  "readJson dir serverId w =
     (case metadataJson dir serverId of
        Json md \<Rightarrow> (Inr md, w)
      | Unreadable msg \<Rightarrow> (Inl msg, w)
      | NoFile \<Rightarrow> (Inl ''ENOENT: no such file or directory'', w))"

definition processServer :: "config \<Rightarrow> dataDir \<Rightarrow> string \<Rightarrow> string \<Rightarrow> flow step" where
  "processServer cfg dir hostDataPath serverId =
     (if metadataJson dir serverId = NoFile then
        andThen (consoleLog (LogSkipping serverId)) (\<lambda>_. ret Continue)
      else
        andThen (readJson dir serverId) (\<lambda>md.
        andThen (consoleLogs
                   [LogProcessing serverId,
                    LogName (or_default (name md) ''Bedrock Server''),
                    LogVersion (or_default (version md) ''LATEST''),
                    LogNetwork (or_default (network md) ''bridge (default)''),
                    LogMemory (num_or_default (memory md) 2147483648)]) (\<lambda>_.
        andThen (checkExisting serverId) (\<lambda>existing.
        if existing then ret Continue
        else createAndStart cfg hostDataPath serverId md))))"

subsection \<open>The batch\<close>

text \<open>
  One iteration of the \<open>for\<close> loop with its \<open>catch\<close>: \<open>continue\<close> leaves both counters,
  the end of the \<open>try\<close> block adds one to \<open>successCount\<close>, an error is logged and adds
  one to \<open>failureCount\<close>.
\<close>

definition iteration ::
  "config \<Rightarrow> dataDir \<Rightarrow> string \<Rightarrow> string \<Rightarrow> world \<times> nat \<times> nat \<Rightarrow> world \<times> nat \<times> nat" where
  "iteration cfg dir hostDataPath serverId st =
     (case st of (w, successCount, failureCount) \<Rightarrow>
        (case processServer cfg dir hostDataPath serverId w of
           (Inr Continue, w') \<Rightarrow> (w', successCount, failureCount)
         | (Inr Completed, w') \<Rightarrow> (w', successCount + 1, failureCount)
         | (Inl err, w') \<Rightarrow>
             (w'\<lparr>console := console w' @ [LogError err]\<rparr>, successCount, failureCount + 1)))"

fun serverLoop ::
  "config \<Rightarrow> dataDir \<Rightarrow> string \<Rightarrow> string list \<Rightarrow> world \<times> nat \<times> nat \<Rightarrow> world \<times> nat \<times> nat" where
  "serverLoop cfg dir hostDataPath [] st = st"
| "serverLoop cfg dir hostDataPath (serverId # rest) st =
     serverLoop cfg dir hostDataPath rest (iteration cfg dir hostDataPath serverId st)"

text \<open>
  The main function. \<open>process.exit(n)\<close> ends the run with \<open>Exit n\<close>; a run that reaches
  the end of the function returns nothing: what it has to report, the two counters
  among it, it has printed.
\<close>

datatype outcome = Exit nat | Returned

definition serverDirsOf :: "string list \<Rightarrow> string list" where
  "serverDirsOf items = filter (\<lambda>item. startsWith item ''bedrock-'') items"

definition summaryLines :: "nat \<Rightarrow> nat \<Rightarrow> line list" where
  "summaryLines successCount failureCount =
     [LogRule, LogSuccessfullyRecreated successCount]
     @ (if failureCount > 0 then [LogFailed failureCount] else [])
     @ [LogRule]
     @ (if failureCount = 0 \<and> successCount > 0 then [LogAllRecreated] else [])"

definition recreateServersBody :: "config \<Rightarrow> dataDir \<Rightarrow> outcome step" where
  "recreateServersBody cfg dir =
     andThen (consoleLogs
                [LogBanner, LogDataDirectory (DATA_DIR cfg),
                 LogDockerNetwork (or_default (DOCKER_NETWORK cfg) ''default (bridge)''),
                 LogSshEnabled (ENABLE_SSH cfg)]) (\<lambda>_.
     if \<not> dirExists dir then
       andThen (consoleLog (LogDataDirNotFound (DATA_DIR cfg))) (\<lambda>_. ret (Exit 1))
     else
       andThen (getHostDataPath cfg) (\<lambda>hostDataPath.
       andThen (\<lambda>w. (dirEntries dir, w)) (\<lambda>items.
       let serverDirs = serverDirsOf items in
       if length serverDirs = 0 then
         andThen (consoleLog LogNoServerDirs) (\<lambda>_. ret (Exit 0))
       else
         andThen (consoleLog (LogFoundServerDirs (length serverDirs))) (\<lambda>_.
         (\<lambda>w. case serverLoop cfg dir hostDataPath serverDirs (w, 0, 0) of
                (w', successCount, failureCount) \<Rightarrow>
                  (Inr Returned,
                   w'\<lparr>console := console w' @ summaryLines successCount failureCount\<rparr>))))))"

definition recreateServers :: "config \<Rightarrow> dataDir \<Rightarrow> world \<Rightarrow> outcome \<times> world" where
  "recreateServers cfg dir w =
     (case tryCatch (recreateServersBody cfg dir)
             (\<lambda>err. andThen (consoleLog (LogFatal err)) (\<lambda>_. ret (Exit 1))) w of
        (Inr out, w') \<Rightarrow> (out, w')
      | (Inl err, w') \<Rightarrow> (Exit 1, w'))"

subsection \<open>Reading the record of calls\<close>

text \<open>
  The order of the image check and the creation, read off the record of calls. After
  \<open>docker.getImage(i).inspect()\<close> the image \<open>i\<close> is known to be present (the call
  returned) or missing (it threw); \<open>docker.pull(i)\<close> stands only where \<open>i\<close> was found
  missing, and when it returns the pull of \<open>i\<close> has been requested;
  \<open>docker.createContainer\<close> stands only where the image of its configuration is known
  to be present or its pull has been requested. Every other call, and a creation itself,
  leaves nothing known. \<open>imageProtocol\<close> runs over a record and gives \<open>None\<close> as soon as
  a call stands where it must not.
\<close>

datatype imageState = Unchecked | Missing string | Present string | Requested string

fun imageStep :: "imageState \<Rightarrow> call \<times> bool \<Rightarrow> imageState option" where
  "imageStep s (InspectImage i, ok) = Some (if ok then Present i else Missing i)"
| "imageStep s (Pull i, ok) =
     (if s = Missing i then Some (if ok then Requested i else Unchecked) else None)"
| "imageStep s (CreateContainer cc, ok) =
     (if s = Present (Image cc) \<or> s = Requested (Image cc) then Some Unchecked else None)"
| "imageStep s (ListContainers, ok) = Some Unchecked"
| "imageStep s (Start c, ok) = Some Unchecked"
| "imageStep s (Inspect c, ok) = Some Unchecked"

fun imageProtocol :: "imageState \<Rightarrow> (call \<times> bool) list \<Rightarrow> imageState option" where
  "imageProtocol s [] = Some s"
| "imageProtocol s (e # es) =
     (case imageStep s e of None \<Rightarrow> None | Some s' \<Rightarrow> imageProtocol s' es)"

definition tracked :: "world \<Rightarrow> imageState option" where
  "tracked w = imageProtocol Unchecked (calls w)"

definition protocolKept :: "world \<Rightarrow> bool" where
  "protocolKept w = (tracked w \<noteq> None)"

definition checkedImage :: "string \<Rightarrow> world \<Rightarrow> bool" where
  "checkedImage i w = (tracked w = Some (Present i) \<or> tracked w = Some (Requested i))"

definition callKind :: "call \<Rightarrow> string" where
  "callKind c = (case c of
       ListContainers \<Rightarrow> ''listContainers''
     | InspectImage i \<Rightarrow> ''getImage.inspect''
     | Pull i \<Rightarrow> ''pull''
     | CreateContainer cc \<Rightarrow> ''createContainer''
     | Start cid \<Rightarrow> ''start''
     | Inspect cid \<Rightarrow> ''inspect'')"

definition callKinds :: "world \<Rightarrow> (string \<times> bool) list" where
  "callKinds w = map (\<lambda>e. (callKind (fst e), snd e)) (calls w)"

subsection \<open>Pre- and postconditions of steps\<close>

text \<open>
  \<open>triple P m Q\<close>: from every state that satisfies \<open>P\<close>, the step \<open>m\<close> ends with a
  result and a state that satisfy \<open>Q\<close>.
\<close>

definition triple ::
  "(world \<Rightarrow> bool) \<Rightarrow> 'a step \<Rightarrow> (string + 'a \<Rightarrow> world \<Rightarrow> bool) \<Rightarrow> bool" where
  "triple P m Q = (\<forall>w. P w \<longrightarrow> Q (fst (m w)) (snd (m w)))"

subsection \<open>Notions used to state the properties\<close>

text \<open>Whether the runtime refuses the next call, and with what message.\<close>

definition nextFault :: "world \<Rightarrow> string option" where
  "nextFault w = (case faults w of Some msg # plan \<Rightarrow> Some msg | _ \<Rightarrow> None)"

text \<open>
  The mounts that target the data path of the manager, container by container in the
  order of the listing; and the containers of a listing that are running.
\<close>

definition dataMountsOf :: "containerInfo \<Rightarrow> mount list" where
  "dataMountsOf c =
     (case Mounts c of None \<Rightarrow> []
      | Some ms \<Rightarrow> filter (\<lambda>m. Destination m = ''/app/minecraft-data'') ms)"

definition dataMounts :: "containerInfo list \<Rightarrow> mount list" where
  "dataMounts cs = concat (map dataMountsOf cs)"

definition runningInstances :: "containerInfo list \<Rightarrow> containerInfo list" where
  "runningInstances cs = filter (\<lambda>c. Status c = ''running'') cs"

text \<open>
  Counting console lines. \<open>getHostDataPath\<close> starts with the line \<open>LogSearchingMount\<close>;
  a server that the loop skips is reported with \<open>LogSkipping\<close> (no \<open>metadata.json\<close>) or
  \<open>LogAlreadyExists\<close>; \<open>isCreationLine\<close> holds of the lines written on the way from the
  built configuration to the started container.
\<close>

definition countLines :: "(line \<Rightarrow> bool) \<Rightarrow> world \<Rightarrow> nat" where
  "countLines p w = length (filter p (console w))"

definition counted :: "(line \<Rightarrow> bool) \<Rightarrow> nat \<Rightarrow> world \<Rightarrow> bool" where
  "counted p n w = (countLines p w = n)"

definition isSearch :: "line \<Rightarrow> bool" where
  "isSearch l = (l = LogSearchingMount)"

definition isSkipReport :: "line \<Rightarrow> bool" where
  "isSkipReport l = (case l of LogSkipping s \<Rightarrow> True | LogAlreadyExists i \<Rightarrow> True | _ \<Rightarrow> False)"

definition skipped :: "world \<Rightarrow> nat" where
  "skipped w = countLines isSkipReport w"

definition isCreationLine :: "line \<Rightarrow> bool" where
  "isCreationLine l =
     (case l of LogPort p \<Rightarrow> True | LogPortNoMapping \<Rightarrow> True | LogPulling i \<Rightarrow> True
      | LogContainerCreated i \<Rightarrow> True | LogNetworkType n \<Rightarrow> True | LogStatus s \<Rightarrow> True
      | _ \<Rightarrow> False)"

text \<open>
  The \<open>server-id\<close> labels of the containers of the runtime, in order; the state \<open>calm L\<close>
  in which the plan refuses no call, the image of the servers is present and the labels
  are \<open>L\<close>.
\<close>

definition serverIds :: "world \<Rightarrow> string option list" where
  "serverIds w = map (\<lambda>c. labelOf c ''server-id'') (containers w)"

definition calm :: "string option list \<Rightarrow> world \<Rightarrow> bool" where
  "calm L w = (faults w = [] \<and> BEDROCK_IMAGE \<in> set (images w) \<and> serverIds w = L)"

text \<open>
  Counting in the record of calls: the calls of \<open>docker.createContainer\<close> (the creations
  attempted), the calls of \<open>container.inspect\<close> that returned (the last call of the
  creation of a server), and the calls that threw, the inspection of an image apart,
  which throws to say that the image is to be pulled.
\<close>

definition countCalls :: "(call \<times> bool \<Rightarrow> bool) \<Rightarrow> world \<Rightarrow> nat" where
  "countCalls p w = length (filter p (calls w))"

definition isCreation :: "call \<times> bool \<Rightarrow> bool" where
  "isCreation e = (case fst e of CreateContainer cc \<Rightarrow> True | _ \<Rightarrow> False)"

definition isInspected :: "call \<times> bool \<Rightarrow> bool" where
  "isInspected e = (snd e \<and> (case fst e of Inspect cid \<Rightarrow> True | _ \<Rightarrow> False))"

definition isFailure :: "call \<times> bool \<Rightarrow> bool" where
  "isFailure e = (\<not> snd e \<and> (case fst e of InspectImage i \<Rightarrow> False | _ \<Rightarrow> True))"

definition attempts :: "world \<Rightarrow> nat" where
  "attempts w = countCalls isCreation w"

definition inspected :: "world \<Rightarrow> nat" where
  "inspected w = countCalls isInspected w"

definition failedCalls :: "world \<Rightarrow> nat" where
  "failedCalls w = countCalls isFailure w"

definition tallied :: "nat \<Rightarrow> nat \<Rightarrow> nat \<Rightarrow> world \<Rightarrow> bool" where
  "tallied a i fl w = (attempts w = a \<and> inspected w = i \<and> failedCalls w = fl)"

definition failedAfter :: "nat \<Rightarrow> nat \<Rightarrow> nat \<Rightarrow> world \<Rightarrow> bool" where
  "failedAfter a i fl w =
     (a \<le> attempts w \<and> attempts w \<le> a + 1 \<and> inspected w = i \<and> fl < failedCalls w)"

text \<open>A server directory has corrupted metadata when reading its \<open>metadata.json\<close> throws.\<close>

definition corrupted :: "dataDir \<Rightarrow> string \<Rightarrow> bool" where
  "corrupted dir serverId =
     (case metadataJson dir serverId of Unreadable msg \<Rightarrow> True | _ \<Rightarrow> False)"

text \<open>
  Names for parts of a run: the lines logged for a server whose metadata was read, the
  lines at the start of \<open>recreateServers\<close>, the path that \<open>getHostDataPath\<close> returns, and
  the state in which the loop over the server directories starts.
\<close>

definition processingLines :: "string \<Rightarrow> metadata \<Rightarrow> line list" where
  "processingLines serverId md =
     [LogProcessing serverId,
      LogName (or_default (name md) ''Bedrock Server''),
      LogVersion (or_default (version md) ''LATEST''),
      LogNetwork (or_default (network md) ''bridge (default)''),
      LogMemory (num_or_default (memory md) 2147483648)]"

definition bannerLines :: "config \<Rightarrow> line list" where
  "bannerLines cfg =
     [LogBanner, LogDataDirectory (DATA_DIR cfg),
      LogDockerNetwork (or_default (DOCKER_NETWORK cfg) ''default (bridge)''),
      LogSshEnabled (ENABLE_SSH cfg)]"

definition resolvedPath :: "config \<Rightarrow> world \<Rightarrow> string" where
  "resolvedPath cfg w = (case fst (getHostDataPath cfg w) of Inl e \<Rightarrow> DATA_DIR cfg | Inr p \<Rightarrow> p)"

definition loopStart :: "config \<Rightarrow> nat \<Rightarrow> world \<Rightarrow> world" where
  "loopStart cfg n w =
     (let w' = snd (getHostDataPath cfg (w\<lparr>console := console w @ bannerLines cfg\<rparr>))
      in w'\<lparr>console := console w' @ [LogFoundServerDirs n]\<rparr>)"

text \<open>
  A creation binds the directory of its server under the path \<open>hostDataPath\<close> when the
  only bind of its configuration is the path joined with the container name, to \<open>/data\<close>.
\<close>

definition boundUnder :: "string \<Rightarrow> call \<times> bool \<Rightarrow> bool" where
  "boundUnder hostDataPath e =
     (case fst e of
        CreateContainer cc \<Rightarrow> bindsOf cc = [path_join hostDataPath (containerName cc) @ '':/data'']
      | _ \<Rightarrow> True)"

definition allBoundUnder :: "string \<Rightarrow> world \<Rightarrow> bool" where
  "allBoundUnder hostDataPath w = list_all (boundUnder hostDataPath) (calls w)"

subsection \<open>Example inputs\<close>

definition exampleConfig :: config where
  "exampleConfig = \<lparr> DATA_DIR = ''/opt/minecraft-servers'', DOCKER_NETWORK = None,
                      ENABLE_SSH = False \<rparr>"

definition survivalMetadata :: metadata where
  "survivalMetadata = \<lparr> name = Some ''Survival'', version = Some ''LATEST'',
                         network = None, memory = Some 2147483648, port = Some 19133 \<rparr>"

definition macvlanMetadata :: metadata where
  "macvlanMetadata = \<lparr> name = None, version = None, network = Some ''minecraft-macvlan'',
                        memory = None, port = None \<rparr>"

text \<open>
  A data directory with a server whose metadata is readable, a file that is not a server
  directory, a server whose metadata is unreadable and a server directory without
  \<open>metadata.json\<close>; and a runtime with no container and no image, whose pulls are
  complete when the next call is made.
\<close>

definition exampleDir :: dataDir where
  "exampleDir =
     \<lparr> dirExists = True,
       dirEntries = Inr [''bedrock-a'', ''notes.txt'', ''bedrock-b'', ''bedrock-c''],
       metadataJson = (\<lambda>entry. if entry = ''bedrock-a'' then Json survivalMetadata
                                else if entry = ''bedrock-b'' then Unreadable ''Unexpected token''
                                else NoFile) \<rparr>"

definition emptyWorld :: world where
  "emptyWorld = \<lparr> containers = [], images = [], pulling = [], pullTime = 0, faults = [],
                   idSupply = [''0123456789abcdef0123''], calls = [], console = [] \<rparr>"

text \<open>
  The same runtime with the image present, and with a pull that is not complete before
  two more calls have passed.
\<close>

definition readyWorld :: world where
  "readyWorld = emptyWorld\<lparr>images := [BEDROCK_IMAGE]\<rparr>"

definition slowPullWorld :: world where
  "slowPullWorld = emptyWorld\<lparr>pullTime := 2\<rparr>"

text \<open>
  A runtime that already holds the container of \<open>bedrock-a\<close> (and so its image), the same runtime refusing
  its next call, data directories with one and with two server directories, and a
  runtime whose only container is a stopped one that mounts the data path of the
  manager.
\<close>

definition existingContainer :: containerInfo where
  "existingContainer =
     \<lparr> Id = ''feedfacefeedface0000'',
       Name = ''bedrock-a'',
       InfoLabels = Some [(''server-id'', ''bedrock-a''), (''server-name'', ''Survival'')],
       Mounts = Some [\<lparr> Source = ''/opt/minecraft-servers/bedrock-a'', Destination = ''/data'' \<rparr>],
       Status = ''running'' \<rparr>"

definition settledWorld :: world where
  "settledWorld = readyWorld\<lparr>containers := [existingContainer]\<rparr>"

definition refusingWorld :: world where
  "refusingWorld = settledWorld\<lparr>faults := [Some ''socket hang up'']\<rparr>"

definition singleDir :: dataDir where
  "singleDir =
     \<lparr> dirExists = True,
       dirEntries = Inr [''bedrock-a''],
       metadataJson = (\<lambda>entry. if entry = ''bedrock-a'' then Json survivalMetadata else NoFile) \<rparr>"

definition pairDir :: dataDir where
  "pairDir =
     \<lparr> dirExists = True,
       dirEntries = Inr [''bedrock-a'', ''bedrock-b''],
       metadataJson = (\<lambda>entry. if entry = ''bedrock-a'' then Json survivalMetadata
                                else if entry = ''bedrock-b'' then Unreadable ''Unexpected token''
                                else NoFile) \<rparr>"

definition stoppedManager :: containerInfo where
  "stoppedManager =
     \<lparr> Id = ''0ddba11c0ffee0000000'',
       Name = ''bedrock-manager'',
       InfoLabels = None,
       Mounts = Some [\<lparr> Source = ''/srv/minecraft'', Destination = ''/app/minecraft-data'' \<rparr>],
       Status = ''exited'' \<rparr>"

definition stoppedManagerWorld :: world where
  "stoppedManagerWorld = emptyWorld\<lparr>containers := [stoppedManager]\<rparr>"

subsection \<open>Facts about the string functions\<close>

lemma startsWith_prefix: "startsWith s p = prefix p s"
  by (auto simp: startsWith_def prefix_def take_is_prefix)
    (metis append_eq_conv_conj)

lemma includes_sublist: "includes_str s p = sublist p s"
  by (induction s) (auto simp: startsWith_prefix sublist_Cons_right)

lemma sublist_take_drop: "sublist w s = (\<exists>i\<le>length s. take (length w) (drop i s) = w)"
proof
  assume "sublist w s"
  then obtain ps ss where "s = ps @ w @ ss" by (auto simp: sublist_def)
  then have "length ps \<le> length s \<and> take (length w) (drop (length ps) s) = w" by simp
  then show "\<exists>i\<le>length s. take (length w) (drop i s) = w" by blast
next
  assume "\<exists>i\<le>length s. take (length w) (drop i s) = w"
  then obtain i where i: "i \<le> length s" "take (length w) (drop i s) = w" by blast
  have "s = take i s @ take (length w) (drop i s) @ drop (length w) (drop i s)"
    by (metis append_take_drop_id)
  with i show "sublist w s" unfolding sublist_def by metis
qed

lemma sameIgnoringCase_map: "sameIgnoringCase u v = (toLowerCase u = toLowerCase v)"
  unfolding sameIgnoringCase_def toLowerCase_def
  by (induction u arbitrary: v) (auto simp: list_all2_Cons1)

lemma includes_toLowerCase:
  assumes "toLowerCase w = w"
  shows "includes_str (toLowerCase s) w = containsIgnoringCase s w"
proof -
  have "includes_str (toLowerCase s) w
      = (\<exists>i\<le>length s. take (length w) (drop i (toLowerCase s)) = w)"
    by (simp add: includes_sublist sublist_take_drop toLowerCase_def)
  also have "\<dots> = (\<exists>i\<le>length s. toLowerCase (take (length w) (drop i s)) = toLowerCase w)"
    using assms by (simp add: toLowerCase_def take_map drop_map)
  also have "\<dots> = containsIgnoringCase s w"
    by (auto simp: containsIgnoringCase_def list_ex_iff sameIgnoringCase_map less_Suc_eq_le
        simp del: upt_Suc)
  finally show ?thesis .
qed

lemma lower_macvlan: "toLowerCase ''macvlan'' = ''macvlan''"
  by code_simp

lemma lower_ipvlan: "toLowerCase ''ipvlan'' = ''ipvlan''"
  by code_simp

subsection \<open>The network policy\<close>

text \<open>
  C1. For every metadata record and every global default network,
  \<open>requiresPortMapping\<close> is false exactly when the effective network (the network of the
  metadata if set, else the global default) contains \<open>macvlan\<close> or \<open>ipvlan\<close> with the
  case of the letters ignored; for every other effective network, and when no network
  is set at all, it is true.
\<close>

theorem requiresPortMapping_policy:
  "requiresPortMapping cfg md
     = (\<not> directlyAddressable (effectiveNetwork (DOCKER_NETWORK cfg) md))"
  by (auto simp: requiresPortMapping_def directlyAddressable_def effectiveNetwork_def js_or_def
      truthy_def noPortMappingModes_def includes_toLowerCase lower_macvlan lower_ipvlan
      split: option.splits)

lemma example_networks:
  "directlyAddressable (effectiveNetwork (DOCKER_NETWORK exampleConfig) macvlanMetadata)"
  "\<not> directlyAddressable (effectiveNetwork (DOCKER_NETWORK exampleConfig) survivalMetadata)"
  "\<not> directlyAddressable
       (effectiveNetwork (Some ''host'') (macvlanMetadata\<lparr>network := Some []\<rparr>))"
  "directlyAddressable
     (effectiveNetwork (Some ''My-IPvlan'') (macvlanMetadata\<lparr>network := None\<rparr>))"
  by code_simp+

theorem requiresPortMapping_policy_witness:
  "\<not> requiresPortMapping exampleConfig macvlanMetadata
   \<and> requiresPortMapping exampleConfig survivalMetadata
   \<and> requiresPortMapping (exampleConfig\<lparr>DOCKER_NETWORK := Some ''host''\<rparr>)
        (macvlanMetadata\<lparr>network := Some []\<rparr>)
   \<and> \<not> requiresPortMapping (exampleConfig\<lparr>DOCKER_NETWORK := Some ''My-IPvlan''\<rparr>)
        (macvlanMetadata\<lparr>network := None\<rparr>)"
  using requiresPortMapping_policy [of exampleConfig macvlanMetadata]
    requiresPortMapping_policy [of exampleConfig survivalMetadata]
    requiresPortMapping_policy [of "exampleConfig\<lparr>DOCKER_NETWORK := Some ''host''\<rparr>"
      "macvlanMetadata\<lparr>network := Some []\<rparr>"]
    requiresPortMapping_policy [of "exampleConfig\<lparr>DOCKER_NETWORK := Some ''My-IPvlan''\<rparr>"
      "macvlanMetadata\<lparr>network := None\<rparr>"]
    example_networks
  by simp

subsection \<open>The container specification built from a metadata record\<close>

lemma requiresPortMapping_port:
  "requiresPortMapping cfg (md\<lparr>port := q\<rparr>) = requiresPortMapping cfg md"
  by (simp add: requiresPortMapping_def)

lemma macvlan_direct: "\<not> requiresPortMapping exampleConfig macvlanMetadata"
  by code_simp

lemma Image_buildContainerConfig:
  "Image (fst (buildContainerConfig cfg p sid md)) = BEDROCK_IMAGE"
  by (simp add: buildContainerConfig_def applyPortConfig_def applyNetworkConfig_def
      initialContainerConfig_def ensureHostConfig_def Let_def)

text \<open>
  What \<open>applyPortConfig\<close> does for a metadata record whose effective network requires
  port mapping: the configuration binds the service port \<open>19132/udp\<close> to the host port
  19132, exposes no port besides, and \<open>applyPortConfig\<close> returns 19132; the port stored
  in the metadata record is never read.
\<close>

lemma port_mapping_binds_service_port:
  assumes "requiresPortMapping cfg md"
  shows "(\<exists>h. HostConfig (fst (buildContainerConfig cfg hostServerPath serverId md)) = Some h
              \<and> PortBindings h = Some [(''19132/udp'', [''19132''])])
       \<and> ExposedPorts (fst (buildContainerConfig cfg hostServerPath serverId md)) = None
       \<and> snd (buildContainerConfig cfg hostServerPath serverId md) = Some 19132
       \<and> buildContainerConfig cfg hostServerPath serverId (md\<lparr>port := storedPort\<rparr>)
           = buildContainerConfig cfg hostServerPath serverId md"
  using assms
  by (simp add: buildContainerConfig_def applyPortConfig_def applyNetworkConfig_def
      initialContainerConfig_def ensureHostConfig_def Let_def requiresPortMapping_port
      buildContainerEnv_def)

text \<open>
  C4. The specification has the service port bound to itself on the host unless a port
  stored in the metadata record overrides the host port, and the script says of itself
  that it matches the port logic of the manager, which gives every server a port of
  its own and keeps it in \<open>metadata.json\<close>. The script does not: the record
  \<open>survivalMetadata\<close> needs port mapping and stores the port 19133, the host port that the
  specification gives it is 19133, and the configuration built for it binds
  \<open>19132/udp\<close> to the host port 19132.
\<close>

theorem stored_port_does_not_override:
  "requiresPortMapping exampleConfig survivalMetadata
   \<and> port survivalMetadata = Some 19133
   \<and> specifiedHostPort survivalMetadata = 19133
   \<and> snd (buildContainerConfig exampleConfig ''/srv/mc/bedrock-a'' ''bedrock-a'' survivalMetadata)
       \<noteq> Some (specifiedHostPort survivalMetadata)
   \<and> map_option PortBindings
        (HostConfig (fst (buildContainerConfig exampleConfig ''/srv/mc/bedrock-a'' ''bedrock-a''
                            survivalMetadata)))
       = Some (Some [(''19132/udp'', [''19132''])])"
  by (simp add: requiresPortMapping_def exampleConfig_def survivalMetadata_def js_or_def truthy_def
      specifiedHostPort_def buildContainerConfig_def applyPortConfig_def applyNetworkConfig_def
      initialContainerConfig_def ensureHostConfig_def Let_def)

text \<open>
  C5. For every metadata record whose effective network does not require port mapping,
  the configuration built for the server exposes \<open>19132/udp\<close>, has no port binding in
  its \<open>HostConfig\<close> (whose network mode is the effective network), and \<open>applyPortConfig\<close>
  returns \<open>null\<close>: the decision carries no host port. On any configuration,
  \<open>applyPortConfig\<close> then leaves \<open>HostConfig\<close> as it was.
\<close>

theorem direct_network_exposes_without_binding:
  assumes "\<not> requiresPortMapping cfg md"
  shows "ExposedPorts (fst (buildContainerConfig cfg hostServerPath serverId md))
           = Some [''19132/udp'']
       \<and> (\<exists>h. HostConfig (fst (buildContainerConfig cfg hostServerPath serverId md)) = Some h
               \<and> PortBindings h = None
               \<and> NetworkMode h = effectiveNetwork (DOCKER_NETWORK cfg) md)
       \<and> snd (buildContainerConfig cfg hostServerPath serverId md) = None
       \<and> HostConfig (fst (applyPortConfig cfg cc md)) = HostConfig cc
       \<and> snd (applyPortConfig cfg cc md) = None"
  using assms
  by (auto simp: buildContainerConfig_def applyPortConfig_def applyNetworkConfig_def
      initialContainerConfig_def ensureHostConfig_def Let_def requiresPortMapping_def
      effectiveNetwork_def js_or_def truthy_def split: option.splits if_splits)

theorem direct_network_exposes_without_binding_witness:
  "\<not> requiresPortMapping exampleConfig macvlanMetadata
   \<and> ExposedPorts (fst (buildContainerConfig exampleConfig ''/srv/mc/bedrock-m'' ''bedrock-m''
                          macvlanMetadata))
        = Some [''19132/udp'']
   \<and> snd (buildContainerConfig exampleConfig ''/srv/mc/bedrock-m'' ''bedrock-m'' macvlanMetadata)
        = None"
  using direct_network_exposes_without_binding [OF macvlan_direct] macvlan_direct by simp

text \<open>
  C6. For every metadata record the environment holds \<open>EULA=TRUE\<close>, a \<open>VERSION\<close> entry
  that is \<open>LATEST\<close> when the record has no version (or an empty one) and the version of
  the record when it has one, and a \<open>SERVER_NAME\<close> entry that is \<open>Bedrock Server\<close> when
  the record has no name (or an empty one) and the name of the record when it has one. \<open>ENABLE_SSH=TRUE\<close> is in the
  environment exactly when the SSH toggle is on, and then it is appended to the three
  entries.
\<close>

theorem buildContainerEnv_contents:
  "''EULA=TRUE'' \<in> set (buildContainerEnv cfg md)
   \<and> (\<exists>v. ''VERSION='' @ v \<in> set (buildContainerEnv cfg md)
          \<and> (version md = None \<or> version md = Some [] \<longrightarrow> v = ''LATEST'')
          \<and> (\<forall>x. version md = Some x \<and> x \<noteq> [] \<longrightarrow> v = x))
   \<and> (\<exists>n. ''SERVER_NAME='' @ n \<in> set (buildContainerEnv cfg md)
          \<and> (name md = None \<or> name md = Some [] \<longrightarrow> n = ''Bedrock Server'')
          \<and> (\<forall>x. name md = Some x \<and> x \<noteq> [] \<longrightarrow> n = x))
   \<and> (''ENABLE_SSH=TRUE'' \<in> set (buildContainerEnv cfg md)) = ENABLE_SSH cfg
   \<and> buildContainerEnv (cfg\<lparr>ENABLE_SSH := True\<rparr>) md
       = buildContainerEnv (cfg\<lparr>ENABLE_SSH := False\<rparr>) md @ [''ENABLE_SSH=TRUE'']
   \<and> length (buildContainerEnv (cfg\<lparr>ENABLE_SSH := False\<rparr>) md) = 3"
  by (auto simp: buildContainerEnv_def Let_def or_default_def js_or_def truthy_def)

theorem buildContainerEnv_contents_witness:
  "buildContainerEnv (exampleConfig\<lparr>ENABLE_SSH := True\<rparr>) macvlanMetadata
     = [''EULA=TRUE'', ''VERSION=LATEST'', ''SERVER_NAME=Bedrock Server'', ''ENABLE_SSH=TRUE'']
   \<and> ''EULA=TRUE'' \<in> set (buildContainerEnv exampleConfig macvlanMetadata)
   \<and> ''ENABLE_SSH=TRUE'' \<notin> set (buildContainerEnv exampleConfig macvlanMetadata)"
  using buildContainerEnv_contents [of exampleConfig macvlanMetadata]
  by (simp add: buildContainerEnv_def Let_def or_default_def js_or_def truthy_def
      exampleConfig_def macvlanMetadata_def)

subsection \<open>Rules for pre- and postconditions\<close>

lemma tripleI: "(\<And>w. P w \<Longrightarrow> Q (fst (m w)) (snd (m w))) \<Longrightarrow> triple P m Q"
  by (simp add: triple_def)

lemma tripleD: "triple P m Q \<Longrightarrow> P w \<Longrightarrow> Q (fst (m w)) (snd (m w))"
  by (simp add: triple_def)

lemma triple_weaken:
  "triple P m Q \<Longrightarrow> (\<And>w. P' w \<Longrightarrow> P w) \<Longrightarrow> (\<And>r w. Q r w \<Longrightarrow> Q' r w) \<Longrightarrow> triple P' m Q'"
  by (simp add: triple_def)

lemma triple_ret: "(\<And>w. P w \<Longrightarrow> Q (Inr x) w) \<Longrightarrow> triple P (ret x) Q"
  by (simp add: triple_def ret_def)

lemma triple_andThen:
  assumes "triple P m (\<lambda>r w. case r of Inl e \<Rightarrow> Q (Inl e) w | Inr x \<Rightarrow> R x w)"
    and "\<And>x. triple (R x) (f x) Q"
  shows "triple P (andThen m f) Q"
proof (rule tripleI)
  fix w assume "P w"
  from tripleD [OF assms(1) this] show "Q (fst (andThen m f w)) (snd (andThen m f w))"
    using tripleD [OF assms(2)]
    by (cases "m w"; cases "fst (m w)") (auto simp: andThen_def)
qed

lemma triple_tryCatch:
  assumes "triple P m (\<lambda>r w. case r of Inl e \<Rightarrow> R e w | Inr x \<Rightarrow> Q (Inr x) w)"
    and "\<And>e. triple (R e) (h e) Q"
  shows "triple P (tryCatch m h) Q"
proof (rule tripleI)
  fix w assume "P w"
  from tripleD [OF assms(1) this] show "Q (fst (tryCatch m h w)) (snd (tryCatch m h w))"
    using tripleD [OF assms(2)]
    by (cases "m w"; cases "fst (m w)") (auto simp: tryCatch_def)
qed

lemma triple_consoleLog:
  "(\<And>w. P w \<Longrightarrow> Q (Inr ()) (w\<lparr>console := console w @ [l]\<rparr>)) \<Longrightarrow> triple P (consoleLog l) Q"
  by (simp add: triple_def consoleLog_def)

lemma triple_consoleLogs:
  "(\<And>w. P w \<Longrightarrow> Q (Inr ()) (w\<lparr>console := console w @ ls\<rparr>)) \<Longrightarrow> triple P (consoleLogs ls) Q"
  by (simp add: triple_def consoleLogs_def)

lemma progress_frame [simp]:
  "containers (progress w) = containers w"
  "faults (progress w) = faults w"
  "idSupply (progress w) = idSupply w"
  "calls (progress w) = calls w"
  "console (progress w) = console w"
  "pullTime (progress w) = pullTime w"
  by (simp_all add: progress_def)

lemma progress_update [simp]:
  "progress (w\<lparr>console := c\<rparr>) = (progress w)\<lparr>console := c\<rparr>"
  "progress (w\<lparr>calls := cl\<rparr>) = (progress w)\<lparr>calls := cl\<rparr>"
  "progress (w\<lparr>faults := f\<rparr>) = (progress w)\<lparr>faults := f\<rparr>"
  "progress (w\<lparr>containers := cs\<rparr>) = (progress w)\<lparr>containers := cs\<rparr>"
  "progress (w\<lparr>idSupply := ids\<rparr>) = (progress w)\<lparr>idSupply := ids\<rparr>"
  by (simp_all add: progress_def)

lemma images_progress: "i \<in> set (images w) \<Longrightarrow> i \<in> set (images (progress w))"
  by (simp add: progress_def)

lemma triple_dockerCall:
  assumes refused: "\<And>w msg plan. P w \<Longrightarrow> faults w = Some msg # plan \<Longrightarrow>
             Q (Inl msg) ((progress w)\<lparr>faults := plan, calls := calls w @ [(c, False)]\<rparr>)"
    and served: "\<And>w r w'. P w \<Longrightarrow> run ((progress w)\<lparr>faults := tl (faults w)\<rparr>) = (r, w') \<Longrightarrow>
             Q r (w'\<lparr>calls := calls w' @ [(c, isOk r)]\<rparr>)"
  shows "triple P (dockerCall c run) Q"
proof (rule tripleI)
  fix w assume P: "P w"
  show "Q (fst (dockerCall c run w)) (snd (dockerCall c run w))"
  proof (cases "\<exists>msg plan. faults w = Some msg # plan")
    case True
    then obtain msg plan where f: "faults w = Some msg # plan" by blast
    with refused [OF P f] show ?thesis by (simp add: dockerCall_def)
  next
    case False
    obtain r w' where run: "run ((progress w)\<lparr>faults := tl (faults w)\<rparr>) = (r, w')"
      by (cases "run ((progress w)\<lparr>faults := tl (faults w)\<rparr>)")
    from False have "dockerCall c run w = (r, w'\<lparr>calls := calls w' @ [(c, isOk r)]\<rparr>)"
      using run by (auto simp: dockerCall_def split: list.splits option.splits)
    with served [OF P run] show ?thesis by simp
  qed
qed

lemma imageProtocol_snoc:
  "imageProtocol s (es @ [e]) = (case imageProtocol s es of None \<Rightarrow> None | Some s' \<Rightarrow> imageStep s' e)"
  by (induction es arbitrary: s) (auto split: option.splits)

lemma tracked_snoc:
  "tracked (w\<lparr>calls := calls v @ [e]\<rparr>) = (case tracked v of None \<Rightarrow> None | Some s \<Rightarrow> imageStep s e)"
  by (simp add: tracked_def imageProtocol_snoc)

lemma tracked_frame [simp]:
  "tracked (w\<lparr>console := c\<rparr>) = tracked w"
  "tracked (w\<lparr>faults := f\<rparr>) = tracked w"
  "tracked (w\<lparr>containers := cs\<rparr>) = tracked w"
  "tracked (w\<lparr>images := im\<rparr>) = tracked w"
  "tracked (w\<lparr>idSupply := ids\<rparr>) = tracked w"
  "tracked (w\<lparr>pulling := ps\<rparr>) = tracked w"
  "tracked (progress w) = tracked w"
  by (simp_all add: tracked_def)

lemma tracked_listContainers:
  "triple (\<lambda>w. tracked w \<noteq> None) listContainers (\<lambda>r w. tracked w = Some Unchecked)"
  unfolding listContainers_def
  by (rule triple_dockerCall) (auto simp: tracked_snoc)

lemma tracked_start:
  "triple (\<lambda>w. tracked w \<noteq> None) (start c) (\<lambda>r w. tracked w = Some Unchecked)"
  unfolding start_def
  by (rule triple_dockerCall) (auto simp: tracked_snoc)

lemma tracked_inspect:
  "triple (\<lambda>w. tracked w \<noteq> None) (inspect c) (\<lambda>r w. tracked w = Some Unchecked)"
  unfolding inspect_def
  by (rule triple_dockerCall) (auto simp: tracked_snoc split: option.splits)

lemma tracked_inspectImage:
  "triple (\<lambda>w. tracked w \<noteq> None) (inspectImage i)
     (\<lambda>r w. tracked w = Some (if isOk r then Present i else Missing i))"
  unfolding inspectImage_def
  by (rule triple_dockerCall) (auto simp: tracked_snoc isOk_def split: if_splits)

lemma tracked_pull:
  "triple (\<lambda>w. tracked w = Some (Missing i)) (pull i)
     (\<lambda>r w. tracked w = Some (if isOk r then Requested i else Unchecked))"
  unfolding pull_def
  by (rule triple_dockerCall) (auto simp: tracked_snoc isOk_def)

lemma tracked_createContainer:
  "triple (checkedImage (Image cc)) (createContainer cc) (\<lambda>r w. tracked w = Some Unchecked)"
  unfolding createContainer_def
  by (rule triple_dockerCall) (auto simp: tracked_snoc Let_def checkedImage_def split: if_splits)

lemma tracked_ensureImage:
  "triple (\<lambda>w. tracked w \<noteq> None) ensureImage
     (\<lambda>r w. case r of Inl e \<Rightarrow> tracked w \<noteq> None | Inr x \<Rightarrow> checkedImage BEDROCK_IMAGE w)"
  unfolding ensureImage_def
  apply (rule triple_tryCatch [where R = "\<lambda>e w. tracked w = Some (Missing BEDROCK_IMAGE)"])
   apply (rule triple_weaken [OF tracked_inspectImage])
    apply simp
   apply (simp add: isOk_def checkedImage_def split: sum.splits)
  apply (rule triple_andThen [where R = "\<lambda>x w. tracked w = Some (Missing BEDROCK_IMAGE)"])
   apply (rule triple_consoleLog)
   apply simp
  apply (rule triple_weaken [OF tracked_pull])
   apply simp
  apply (simp add: isOk_def checkedImage_def split: sum.splits)
  done

lemma keep_andThen:
  "triple I m (\<lambda>r. I) \<Longrightarrow> (\<And>x. triple I (f x) (\<lambda>r. I)) \<Longrightarrow> triple I (andThen m f) (\<lambda>r. I)"
  by (rule triple_andThen [where R = "\<lambda>x. I"]) (auto simp: triple_def split: sum.splits)

lemma keep_tryCatch:
  "triple I m (\<lambda>r. I) \<Longrightarrow> (\<And>e. triple I (h e) (\<lambda>r. I)) \<Longrightarrow> triple I (tryCatch m h) (\<lambda>r. I)"
  by (rule triple_tryCatch [where R = "\<lambda>x. I"]) (auto simp: triple_def split: sum.splits)

lemma keep_ret: "triple I (ret x) (\<lambda>r. I)"
  by (simp add: triple_def ret_def)

lemma keep_throw: "triple I (\<lambda>w. (Inl e, w)) (\<lambda>r. I)"
  by (simp add: triple_def)

lemma keep_if:
  "(b \<Longrightarrow> triple I m (\<lambda>r. I)) \<Longrightarrow> (\<not> b \<Longrightarrow> triple I n (\<lambda>r. I)) \<Longrightarrow> triple I (if b then m else n) (\<lambda>r. I)"
  by simp

lemma protocol_consoleLog: "triple protocolKept (consoleLog l) (\<lambda>r. protocolKept)"
  by (rule triple_consoleLog) (simp add: protocolKept_def)

lemma protocol_consoleLogs: "triple protocolKept (consoleLogs ls) (\<lambda>r. protocolKept)"
  by (rule triple_consoleLogs) (simp add: protocolKept_def)

lemma protocol_listContainers: "triple protocolKept listContainers (\<lambda>r. protocolKept)"
  by (rule triple_weaken [OF tracked_listContainers]) (simp_all add: protocolKept_def)

lemma protocol_start: "triple protocolKept (start c) (\<lambda>r. protocolKept)"
  by (rule triple_weaken [OF tracked_start]) (simp_all add: protocolKept_def)

lemma protocol_inspect: "triple protocolKept (inspect c) (\<lambda>r. protocolKept)"
  by (rule triple_weaken [OF tracked_inspect]) (simp_all add: protocolKept_def)

lemma protocol_readJson: "triple protocolKept (readJson dir sid) (\<lambda>r. protocolKept)"
  by (auto simp: triple_def readJson_def split: metadataFile.splits)

lemma protocol_create:
  assumes "Image cc = BEDROCK_IMAGE"
    and rest: "\<And>x. triple protocolKept (f x) (\<lambda>r. protocolKept)"
  shows "triple protocolKept (andThen ensureImage (\<lambda>_. andThen (createContainer cc) f))
           (\<lambda>r. protocolKept)"
proof (rule triple_andThen [where R = "\<lambda>x. checkedImage BEDROCK_IMAGE"])
  show "triple protocolKept ensureImage
     (\<lambda>r w. case r of Inl e \<Rightarrow> protocolKept w | Inr x \<Rightarrow> checkedImage BEDROCK_IMAGE w)"
    by (rule triple_weaken [OF tracked_ensureImage]) (auto simp: protocolKept_def split: sum.splits)
next
  fix x :: unit
  show "triple (checkedImage BEDROCK_IMAGE)
          (andThen (createContainer cc) f) (\<lambda>r. protocolKept)"
  proof (rule triple_andThen [where R = "\<lambda>x. protocolKept"])
    show "triple (checkedImage BEDROCK_IMAGE) (createContainer cc)
        (\<lambda>r w. case r of Inl e \<Rightarrow> protocolKept w | Inr x \<Rightarrow> protocolKept w)"
      by (rule triple_weaken [OF tracked_createContainer [of cc]])
        (auto simp: assms(1) protocolKept_def split: sum.splits)
  qed (rule rest)
qed

lemmas protocol_rules = keep_andThen keep_tryCatch keep_ret keep_throw
  protocol_consoleLog protocol_consoleLogs protocol_listContainers protocol_start
  protocol_inspect protocol_readJson

lemma protocol_createAndStart:
  "triple protocolKept (createAndStart cfg hdp sid md) (\<lambda>r. protocolKept)"
proof -
  obtain cc pr where b: "buildContainerConfig cfg (path_join hdp sid) sid md = (cc, pr)"
    by (cases "buildContainerConfig cfg (path_join hdp sid) sid md")
  then have img: "Image cc = BEDROCK_IMAGE"
    using Image_buildContainerConfig [of cfg "path_join hdp sid" sid md] by simp
  show ?thesis
    unfolding createAndStart_def b prod.case
    apply (rule keep_andThen [OF protocol_consoleLog])
    apply (rule protocol_create [OF img])
    apply (intro protocol_rules keep_if)
    apply (auto split: option.splits intro!: protocol_rules)
    done
qed

lemma protocol_checkExisting:
  "triple protocolKept (checkExisting sid) (\<lambda>r. protocolKept)"
  unfolding checkExisting_def
  by (auto split: option.splits intro!: protocol_rules)

lemma protocol_processServer:
  "triple protocolKept (processServer cfg dir hdp sid) (\<lambda>r. protocolKept)"
  unfolding processServer_def
  by (auto intro!: protocol_rules protocol_checkExisting protocol_createAndStart)

lemma protocol_getHostDataPath:
  "triple protocolKept (getHostDataPath cfg) (\<lambda>r. protocolKept)"
  unfolding getHostDataPath_def
  by (auto split: option.splits intro!: protocol_rules)

lemma protocol_iteration:
  "protocolKept (fst st) \<Longrightarrow> protocolKept (fst (iteration cfg dir hdp sid st))"
  using tripleD [OF protocol_processServer, of "fst st" cfg dir hdp sid]
  by (cases st; cases "processServer cfg dir hdp sid (fst st)")
    (auto simp: iteration_def protocolKept_def split: sum.splits flow.splits)

lemma protocol_serverLoop:
  "protocolKept (fst st) \<Longrightarrow> protocolKept (fst (serverLoop cfg dir hdp sids st))"
proof (induction sids arbitrary: st)
  case Nil
  then show ?case by simp
next
  case (Cons sid sids)
  from Cons.prems have "protocolKept (fst (iteration cfg dir hdp sid st))"
    by (rule protocol_iteration)
  from Cons.IH [OF this] show ?case by simp
qed

lemma protocol_loopStep:
  "triple protocolKept
     (\<lambda>w. case serverLoop cfg dir hdp sids (w, 0, 0) of
            (w', successCount, failureCount) \<Rightarrow>
              (Inr Returned,
               w'\<lparr>console := console w' @ summaryLines successCount failureCount\<rparr>))
     (\<lambda>r. protocolKept)"
proof (rule tripleI)
  fix w assume "protocolKept w"
  then have "protocolKept (fst (serverLoop cfg dir hdp sids (w, 0, 0)))"
    using protocol_serverLoop [of "(w, 0, 0)"] by simp
  then show "protocolKept (snd (case serverLoop cfg dir hdp sids (w, 0, 0) of
            (w', successCount, failureCount) \<Rightarrow>
              (Inr Returned,
               w'\<lparr>console := console w' @ summaryLines successCount failureCount\<rparr>)))"
    by (cases "serverLoop cfg dir hdp sids (w, 0, 0)") (simp add: protocolKept_def)
qed

lemma protocol_recreateServersBody:
  "triple protocolKept (recreateServersBody cfg dir) (\<lambda>r. protocolKept)"
  unfolding recreateServersBody_def Let_def
  apply (intro protocol_rules keep_if protocol_getHostDataPath protocol_loopStep)
  apply (simp add: triple_def)
  done

lemma protocol_recreateServers:
  assumes "protocolKept w"
  shows "protocolKept (snd (recreateServers cfg dir w))"
proof -
  have "triple protocolKept
          (tryCatch (recreateServersBody cfg dir)
             (\<lambda>err. andThen (consoleLog (LogFatal err)) (\<lambda>_. ret (Exit 1))))
          (\<lambda>r. protocolKept)"
    by (intro protocol_rules protocol_recreateServersBody)
  from tripleD [OF this assms] show ?thesis
    by (auto simp: recreateServers_def split: prod.splits sum.splits)
qed

text \<open>
  The order of the awaited calls. In the record of the calls of a whole run,
  \<open>docker.createContainer\<close> stands only right after \<open>getImage(image).inspect()\<close> returned,
  or after it threw and the awaited \<open>docker.pull(image)\<close> returned; a pull stands only
  right after an inspection that threw. This is the order in which the script makes the
  calls, and no more: that the awaited pull has returned does not say that the image is
  present.
\<close>

lemma awaited_calls_in_order:
  "imageProtocol Unchecked (calls (snd (recreateServers cfg dir (w\<lparr>calls := []\<rparr>)))) \<noteq> None"
  using protocol_recreateServers [of "w\<lparr>calls := []\<rparr>" cfg dir]
  by (simp add: protocolKept_def tracked_def)

lemma example_run_calls:
  "callKinds (snd (recreateServers exampleConfig exampleDir emptyWorld))
     = [(''listContainers'', True), (''listContainers'', True), (''getImage.inspect'', False),
        (''pull'', True), (''createContainer'', True), (''start'', True), (''inspect'', True)]"
  by code_simp

subsection \<open>The host data path\<close>

lemma find_filter_hd:
  "find P xs = (case filter P xs of [] \<Rightarrow> None | x # ys \<Rightarrow> Some x)"
  by (induction xs) auto

lemma findMinecraftMount_Cons:
  "findMinecraftMount (c # cs) =
     (case dataMountsOf c of [] \<Rightarrow> findMinecraftMount cs | m # ms \<Rightarrow> Some m)"
  by (simp add: dataMountsOf_def find_filter_hd split: option.splits list.splits)

lemma findMinecraftMount_dataMounts:
  "findMinecraftMount cs = (case dataMounts cs of [] \<Rightarrow> None | m # ms \<Rightarrow> Some m)"
proof (induction cs)
  case Nil
  show ?case by (simp add: dataMounts_def)
next
  case (Cons c cs)
  have "dataMounts (c # cs) = dataMountsOf c @ dataMounts cs"
    by (simp add: dataMounts_def)
  with Cons show ?case
    by (cases "dataMountsOf c") (simp_all add: findMinecraftMount_Cons del: findMinecraftMount.simps)
qed

lemma nextFault_frame [simp]:
  "nextFault (w\<lparr>console := c\<rparr>) = nextFault w"
  "nextFault (w\<lparr>calls := cl\<rparr>) = nextFault w"
  "nextFault (w\<lparr>containers := cs\<rparr>) = nextFault w"
  "nextFault (w\<lparr>images := im\<rparr>) = nextFault w"
  "nextFault (w\<lparr>idSupply := ids\<rparr>) = nextFault w"
  "nextFault (w\<lparr>pulling := ps\<rparr>) = nextFault w"
  "nextFault (progress w) = nextFault w"
  by (simp_all add: nextFault_def)

lemma dockerCall_refused:
  "nextFault w = Some msg \<Longrightarrow>
   dockerCall c run w
     = (Inl msg, (progress w)\<lparr>faults := tl (faults w), calls := calls w @ [(c, False)]\<rparr>)"
  by (auto simp: dockerCall_def nextFault_def split: list.splits option.splits)

lemma dockerCall_served:
  "nextFault w = None \<Longrightarrow>
   dockerCall c run w =
     (case run ((progress w)\<lparr>faults := tl (faults w)\<rparr>) of
        (r, w') \<Rightarrow> (r, w'\<lparr>calls := calls w' @ [(c, isOk r)]\<rparr>))"
  by (auto simp: dockerCall_def nextFault_def split: list.splits option.splits)

lemma getHostDataPath_value:
  "fst (getHostDataPath cfg w) =
     Inr (case nextFault w of
            Some msg \<Rightarrow> DATA_DIR cfg
          | None \<Rightarrow> (case dataMounts (containers w) of
                        [] \<Rightarrow> DATA_DIR cfg
                      | m # ms \<Rightarrow> Source m))"
proof (cases "nextFault w")
  case None
  then show ?thesis
    by (simp add: getHostDataPath_def tryCatch_def andThen_def consoleLog_def ret_def
        listContainers_def dockerCall_served findMinecraftMount_dataMounts isOk_def
        split: list.splits)
next
  case (Some msg)
  then show ?thesis
    by (simp add: getHostDataPath_def tryCatch_def andThen_def consoleLog_def ret_def
        listContainers_def dockerCall_refused)
qed

subsection \<open>Console lines left untouched\<close>

lemma countLines_frame [simp]:
  "countLines p (w\<lparr>calls := cl\<rparr>) = countLines p w"
  "countLines p (w\<lparr>faults := f\<rparr>) = countLines p w"
  "countLines p (w\<lparr>containers := cs\<rparr>) = countLines p w"
  "countLines p (w\<lparr>images := im\<rparr>) = countLines p w"
  "countLines p (w\<lparr>idSupply := ids\<rparr>) = countLines p w"
  "countLines p (w\<lparr>pulling := ps\<rparr>) = countLines p w"
  "countLines p (progress w) = countLines p w"
  by (simp_all add: countLines_def)

lemma countLines_console [simp]:
  "countLines p (w\<lparr>console := console v @ ls\<rparr>) = countLines p v + length (filter p ls)"
  by (simp add: countLines_def)

lemma seq_rule:
  assumes "triple I m (\<lambda>r. I)"
    and "\<And>e w. I w \<Longrightarrow> Q (Inl e) w"
    and "\<And>x. triple I (f x) Q"
  shows "triple I (andThen m f) Q"
  by (rule triple_andThen [where R = "\<lambda>x. I"])
    (use assms in \<open>auto simp: triple_def split: sum.splits\<close>)

lemma count_consoleLog:
  "\<not> p l \<Longrightarrow> triple (counted p n) (consoleLog l) (\<lambda>r. counted p n)"
  by (rule triple_consoleLog) (simp add: counted_def)

lemma count_consoleLogs:
  "filter p ls = [] \<Longrightarrow> triple (counted p n) (consoleLogs ls) (\<lambda>r. counted p n)"
  by (rule triple_consoleLogs) (simp add: counted_def)

lemma count_listContainers: "triple (counted p n) listContainers (\<lambda>r. counted p n)"
  unfolding listContainers_def
  by (rule triple_dockerCall) (auto simp: counted_def)

lemma count_inspectImage: "triple (counted p n) (inspectImage i) (\<lambda>r. counted p n)"
  unfolding inspectImage_def
  by (rule triple_dockerCall) (auto simp: counted_def split: if_splits)

lemma count_pull: "triple (counted p n) (pull i) (\<lambda>r. counted p n)"
  unfolding pull_def
  by (rule triple_dockerCall) (auto simp: counted_def)

lemma count_createContainer: "triple (counted p n) (createContainer cc) (\<lambda>r. counted p n)"
  unfolding createContainer_def
  by (rule triple_dockerCall) (auto simp: counted_def Let_def split: if_splits)

lemma count_start: "triple (counted p n) (start c) (\<lambda>r. counted p n)"
  unfolding start_def
  by (rule triple_dockerCall) (auto simp: counted_def)

lemma count_inspect: "triple (counted p n) (inspect c) (\<lambda>r. counted p n)"
  unfolding inspect_def
  by (rule triple_dockerCall) (auto simp: counted_def split: option.splits)

lemma count_readJson: "triple (counted p n) (readJson dir sid) (\<lambda>r. counted p n)"
  by (auto simp: triple_def readJson_def split: metadataFile.splits)

lemmas count_rules = keep_andThen keep_tryCatch keep_ret keep_throw keep_if
  count_listContainers count_inspectImage count_pull count_createContainer count_start
  count_inspect count_readJson

lemma count_ensureImage:
  assumes quiet: "\<And>l. isCreationLine l \<Longrightarrow> \<not> p l"
  shows "triple (counted p n) ensureImage (\<lambda>r. counted p n)"
  unfolding ensureImage_def
  by (intro count_rules count_consoleLog quiet) (simp add: isCreationLine_def)

lemma count_createAndStart:
  assumes quiet: "\<And>l. isCreationLine l \<Longrightarrow> \<not> p l"
  shows "triple (counted p n) (createAndStart cfg hdp sid md)
           (\<lambda>r w. counted p n w \<and> r \<noteq> Inr Continue)"
proof -
  obtain cc pr where b: "buildContainerConfig cfg (path_join hdp sid) sid md = (cc, pr)"
    by (cases "buildContainerConfig cfg (path_join hdp sid) sid md")
  have log: "triple (counted p n) (consoleLog l) (\<lambda>r. counted p n)" if "isCreationLine l" for l
    using that by (intro count_consoleLog quiet)
  have netlog: "triple (counted p n)
      (if truthy (js_or (network md) (DOCKER_NETWORK cfg))
       then case HostConfig cc of None \<Rightarrow> (\<lambda>w. (Inl ''TypeError'', w))
            | Some h \<Rightarrow> consoleLog (LogNetworkType (NetworkMode h))
       else ret ()) (\<lambda>r. counted p n)"
    by (auto split: option.splits intro!: count_rules log simp: isCreationLine_def)
  show ?thesis
    unfolding createAndStart_def b prod.case
    apply (rule seq_rule, rule log, simp add: isCreationLine_def split: option.splits, simp)
    apply (rule seq_rule, rule count_ensureImage [OF quiet], assumption, simp)
    apply (rule seq_rule, rule count_createContainer, simp)
    apply (rule seq_rule, rule count_start, simp)
    apply (rule seq_rule, rule count_inspect, simp)
    apply (rule seq_rule, rule log, simp add: isCreationLine_def, simp)
    apply (rule seq_rule, rule netlog, simp)
    apply (rule seq_rule, rule log, simp add: isCreationLine_def, simp)
    apply (rule triple_ret, simp)
    done
qed

lemma search_quiet: "isCreationLine l \<Longrightarrow> \<not> isSearch l"
  by (auto simp: isCreationLine_def isSearch_def)

lemma skip_quiet: "isCreationLine l \<Longrightarrow> \<not> isSkipReport l"
  by (cases l) (auto simp: isCreationLine_def isSkipReport_def)

lemma search_checkExisting:
  "triple (counted isSearch n) (checkExisting sid) (\<lambda>r. counted isSearch n)"
  unfolding checkExisting_def
  by (auto split: option.splits intro!: count_rules count_consoleLog simp: isSearch_def)

lemma search_processServer:
  "triple (counted isSearch n) (processServer cfg dir hdp sid) (\<lambda>r. counted isSearch n)"
  unfolding processServer_def
  by (auto intro!: count_rules count_consoleLog count_consoleLogs search_checkExisting
      triple_weaken [OF count_createAndStart [OF search_quiet]] simp: isSearch_def)

lemma search_iteration:
  "countLines isSearch (fst (iteration cfg dir hdp sid st)) = countLines isSearch (fst st)"
  using tripleD [OF search_processServer, of "countLines isSearch (fst st)" "fst st" cfg dir hdp sid]
  by (cases st; cases "processServer cfg dir hdp sid (fst st)")
    (auto simp: iteration_def counted_def isSearch_def split: sum.splits flow.splits)

lemma search_serverLoop:
  "countLines isSearch (fst (serverLoop cfg dir hdp sids st)) = countLines isSearch (fst st)"
  by (induction sids arbitrary: st) (simp_all add: search_iteration)

lemma seq_total:
  assumes "triple P m (\<lambda>r w. isOk r \<and> R w)"
    and "\<And>x. triple R (f x) Q"
  shows "triple P (andThen m f) Q"
  by (rule triple_andThen [where R = "\<lambda>x. R"])
    (use assms in \<open>auto simp: triple_def isOk_def split: sum.splits\<close>)

lemma getHostDataPath_searches:
  "countLines isSearch (snd (getHostDataPath cfg w)) = Suc (countLines isSearch w)"
proof (cases "nextFault w")
  case None
  then show ?thesis
    by (simp add: getHostDataPath_def tryCatch_def andThen_def consoleLog_def ret_def
        listContainers_def dockerCall_served findMinecraftMount_dataMounts isOk_def
        countLines_def isSearch_def split: list.splits)
next
  case (Some msg)
  then show ?thesis
    by (simp add: getHostDataPath_def tryCatch_def andThen_def consoleLog_def ret_def
        listContainers_def dockerCall_refused countLines_def isSearch_def)
qed

lemma search_getHostDataPath:
  "triple (counted isSearch n) (getHostDataPath cfg)
     (\<lambda>r w. isOk r \<and> counted isSearch (Suc n) w)"
  by (rule tripleI) (simp add: counted_def getHostDataPath_searches getHostDataPath_value isOk_def)

lemma search_loopStep:
  "triple (counted isSearch n)
     (\<lambda>w. case serverLoop cfg dir hdp sids (w, 0, 0) of
            (w', successCount, failureCount) \<Rightarrow>
              (Inr Returned,
               w'\<lparr>console := console w' @ summaryLines successCount failureCount\<rparr>))
     (\<lambda>r. counted isSearch n)"
proof (rule tripleI)
  fix w assume "counted isSearch n w"
  then have "countLines isSearch (fst (serverLoop cfg dir hdp sids (w, 0, 0))) = n"
    by (simp add: search_serverLoop counted_def)
  then show "counted isSearch n (snd (case serverLoop cfg dir hdp sids (w, 0, 0) of
            (w', successCount, failureCount) \<Rightarrow>
              (Inr Returned,
               w'\<lparr>console := console w' @ summaryLines successCount failureCount\<rparr>)))"
    by (cases "serverLoop cfg dir hdp sids (w, 0, 0)")
      (simp add: counted_def summaryLines_def isSearch_def)
qed

lemma search_recreateServersBody:
  "triple (counted isSearch n) (recreateServersBody cfg dir)
     (\<lambda>r w. counted isSearch (if dirExists dir then Suc n else n) w)"
proof (cases "dirExists dir")
  case False
  then show ?thesis
    unfolding recreateServersBody_def
    by (auto intro!: count_rules count_consoleLog count_consoleLogs simp: isSearch_def)
next
  case True
  have rest: "triple (counted isSearch (Suc n))
      (andThen (\<lambda>w. (dirEntries dir, w)) (\<lambda>items.
       let serverDirs = serverDirsOf items in
       if length serverDirs = 0 then
         andThen (consoleLog LogNoServerDirs) (\<lambda>_. ret (Exit 0))
       else
         andThen (consoleLog (LogFoundServerDirs (length serverDirs))) (\<lambda>_.
         (\<lambda>w. case serverLoop cfg dir hdp serverDirs (w, 0, 0) of
                (w', successCount, failureCount) \<Rightarrow>
                  (Inr Returned,
                   w'\<lparr>console := console w' @ summaryLines successCount failureCount\<rparr>)))))
      (\<lambda>r. counted isSearch (Suc n))" for hdp
    unfolding Let_def
    apply (intro count_rules count_consoleLog search_loopStep)
      apply (simp add: triple_def)
     apply (simp_all add: isSearch_def)
    done
  have banner: "triple (counted isSearch n)
      (consoleLogs [LogBanner, LogDataDirectory (DATA_DIR cfg),
                 LogDockerNetwork (or_default (DOCKER_NETWORK cfg) ''default (bridge)''),
                 LogSshEnabled (ENABLE_SSH cfg)])
      (\<lambda>r w. isOk r \<and> counted isSearch n w)"
    by (rule triple_consoleLogs) (simp add: counted_def isOk_def isSearch_def)
  show ?thesis
    unfolding recreateServersBody_def
    apply (simp only: True not_True_eq_False if_False if_True)
    apply (rule seq_total [OF banner])
    apply (rule seq_total [OF search_getHostDataPath])
    apply (rule rest)
    done
qed

lemma search_recreateServers:
  "countLines isSearch (snd (recreateServers cfg dir w))
     = countLines isSearch w + (if dirExists dir then 1 else 0)"
proof -
  define n where "n = countLines isSearch w"
  have "triple (counted isSearch n)
          (tryCatch (recreateServersBody cfg dir)
             (\<lambda>err. andThen (consoleLog (LogFatal err)) (\<lambda>_. ret (Exit 1))))
          (\<lambda>r w. counted isSearch (if dirExists dir then Suc n else n) w)"
    apply (rule triple_tryCatch
        [where R = "\<lambda>e. counted isSearch (if dirExists dir then Suc n else n)"])
     apply (rule triple_weaken [OF search_recreateServersBody], assumption)
     apply (simp split: sum.splits)
    apply (intro count_rules count_consoleLog)
    apply (simp add: isSearch_def)
    done
  from tripleD [OF this, of w] show ?thesis
    by (auto simp: recreateServers_def counted_def n_def split: prod.splits sum.splits)
qed

subsection \<open>Running the body for one server\<close>


lemma checkExisting_refused:
  assumes "nextFault w = Some msg"
  shows "checkExisting sid w =
     (Inr False,
      (progress w)\<lparr>faults := tl (faults w), calls := calls w @ [(ListContainers, False)],
                    console := console w @ [LogErrorChecking msg]\<rparr>)"
  using assms
  by (simp add: checkExisting_def tryCatch_def andThen_def listContainers_def dockerCall_refused
      consoleLog_def ret_def)

lemma checkExisting_found:
  assumes "nextFault w = None"
    and "find (\<lambda>c. labelOf c ''server-id'' = Some sid) (containers w) = Some c"
  shows "checkExisting sid w =
     (Inr True,
      (progress w)\<lparr>faults := tl (faults w), calls := calls w @ [(ListContainers, True)],
                   console := console w @ [LogAlreadyExists (take 12 (Id c))]\<rparr>)"
  using assms
  by (simp add: checkExisting_def tryCatch_def andThen_def listContainers_def dockerCall_served
      consoleLog_def ret_def isOk_def)

lemma checkExisting_absent:
  assumes "nextFault w = None"
    and "find (\<lambda>c. labelOf c ''server-id'' = Some sid) (containers w) = None"
  shows "checkExisting sid w =
     (Inr False,
      (progress w)\<lparr>faults := tl (faults w), calls := calls w @ [(ListContainers, True)]\<rparr>)"
  using assms
  by (simp add: checkExisting_def tryCatch_def andThen_def listContainers_def dockerCall_served
      consoleLog_def ret_def isOk_def)

lemma processServer_readable:
  assumes "metadataJson dir sid = Json md"
  shows "processServer cfg dir hdp sid w =
     (case checkExisting sid (w\<lparr>console := console w @ processingLines sid md\<rparr>) of
        (Inl e, w') \<Rightarrow> (Inl e, w')
      | (Inr existing, w') \<Rightarrow>
          if existing then (Inr Continue, w') else createAndStart cfg hdp sid md w')"
  using assms
  by (simp add: processServer_def andThen_def readJson_def consoleLogs_def ret_def
      processingLines_def split: prod.splits sum.splits)

lemma processServer_noFile:
  assumes "metadataJson dir sid = NoFile"
  shows "processServer cfg dir hdp sid w = (Inr Continue, w\<lparr>console := console w @ [LogSkipping sid]\<rparr>)"
  using assms by (simp add: processServer_def andThen_def consoleLog_def ret_def)

lemma processServer_unreadable:
  assumes "metadataJson dir sid = Unreadable msg"
  shows "processServer cfg dir hdp sid w = (Inl msg, w)"
  using assms by (simp add: processServer_def andThen_def readJson_def)

lemma serverIds_frame [simp]:
  "serverIds (w\<lparr>console := c\<rparr>) = serverIds w"
  "serverIds (w\<lparr>calls := cl\<rparr>) = serverIds w"
  "serverIds (w\<lparr>images := im\<rparr>) = serverIds w"
  "serverIds (w\<lparr>idSupply := ids\<rparr>) = serverIds w"
  "serverIds (w\<lparr>faults := f\<rparr>) = serverIds w"
  "serverIds (w\<lparr>pulling := ps\<rparr>) = serverIds w"
  "serverIds (progress w) = serverIds w"
  by (simp_all add: serverIds_def)

lemma calm_frame [simp]:
  "calm L (w\<lparr>console := c\<rparr>) = calm L w"
  "calm L (w\<lparr>calls := cl\<rparr>) = calm L w"
  "calm L (w\<lparr>idSupply := ids\<rparr>) = calm L w"
  "calm L (w\<lparr>pulling := ps\<rparr>) = calm L w"
  by (simp_all add: calm_def serverIds_def)

lemma calm_progress: "calm L w \<Longrightarrow> calm L (progress w)"
  by (simp add: calm_def images_progress)

lemma dockerCall_calm:
  assumes "faults w = []"
  shows "dockerCall c run w =
     (case run (progress w) of (r, w') \<Rightarrow> (r, w'\<lparr>calls := calls w' @ [(c, isOk r)]\<rparr>))"
proof -
  have "(progress w)\<lparr>faults := faults (progress w)\<rparr> = progress w" by simp
  then have same: "(progress w)\<lparr>faults := []\<rparr> = progress w" by (simp add: assms)
  show ?thesis by (simp add: dockerCall_def assms same)
qed

lemma seq_value:
  assumes "triple P m (\<lambda>r w. \<exists>x. r = Inr x \<and> R x w)"
    and "\<And>x. triple (R x) (f x) Q"
  shows "triple P (andThen m f) Q"
  by (rule triple_andThen [where R = R])
    (use assms in \<open>auto simp: triple_def split: sum.splits\<close>)

lemma calm_consoleLog:
  "triple (\<lambda>w. calm L w \<and> A (containers w)) (consoleLog l)
     (\<lambda>r w. \<exists>x. r = Inr x \<and> calm L w \<and> A (containers w))"
  by (rule triple_consoleLog) simp

lemma calm_ensureImage:
  "triple (\<lambda>w. calm L w \<and> A (containers w)) ensureImage
     (\<lambda>r w. \<exists>x. r = Inr x \<and> calm L w \<and> A (containers w))"
proof (rule tripleI)
  fix w assume c: "calm L w \<and> A (containers w)"
  then have f: "faults w = []" and i: "BEDROCK_IMAGE \<in> set (images (progress w))"
    by (simp_all add: calm_def images_progress)
  from c have "calm L (progress w)" by (simp add: calm_progress)
  with f i c show "\<exists>x. fst (ensureImage w) = Inr x \<and> calm L (snd (ensureImage w))
      \<and> A (containers (snd (ensureImage w)))"
    by (simp add: ensureImage_def tryCatch_def inspectImage_def dockerCall_calm)
qed

lemma calm_createContainer:
  assumes "Image cc = BEDROCK_IMAGE"
  shows "triple (\<lambda>w. calm L w \<and> containerName cc \<notin> Name ` set (containers w))
     (createContainer cc)
     (\<lambda>r w. \<exists>x. r = Inr x \<and> calm (L @ [map_of (Labels cc) ''server-id'']) w
                \<and> x \<in> Id ` set (containers w))"
proof (rule tripleI)
  fix w assume a: "calm L w \<and> containerName cc \<notin> Name ` set (containers w)"
  then have f: "faults w = []" and i: "Image cc \<in> set (images (progress w))"
    by (simp_all add: calm_def images_progress assms)
  from a have "calm L (progress w)" by (simp add: calm_progress)
  with a f i show "\<exists>x. fst (createContainer cc w) = Inr x
       \<and> calm (L @ [map_of (Labels cc) ''server-id'']) (snd (createContainer cc w))
       \<and> x \<in> Id ` set (containers (snd (createContainer cc w)))"
    by (simp add: createContainer_def dockerCall_calm calm_def serverIds_def labelOf_def Let_def)
qed

lemma start_keeps_ids:
  "map Id (map (\<lambda>c. if Id c = x then c\<lparr>Status := s\<rparr> else c) cs) = map Id cs"
  by (induction cs) auto

lemma start_keeps_labels:
  "map (\<lambda>c. labelOf c k) (map (\<lambda>c. if Id c = x then c\<lparr>Status := s\<rparr> else c) cs)
     = map (\<lambda>c. labelOf c k) cs"
  by (induction cs) (auto simp: labelOf_def)

lemma calm_start:
  "triple (\<lambda>w. calm L w \<and> x \<in> Id ` set (containers w)) (start x)
     (\<lambda>r w. \<exists>u. r = Inr u \<and> calm L w \<and> x \<in> Id ` set (containers w))"
proof (rule tripleI)
  fix w assume a: "calm L w \<and> x \<in> Id ` set (containers w)"
  let ?cs = "map (\<lambda>c. if Id c = x then c\<lparr>Status := ''running''\<rparr> else c) (containers w)"
  let ?w' = "(progress w)\<lparr>containers := ?cs, calls := calls w @ [(Start x, True)]\<rparr>"
  have "set (map Id ?cs) = set (map Id (containers w))"
    by (simp only: start_keeps_ids)
  then have ids: "Id ` set ?cs = Id ` set (containers w)"
    by (simp only: set_map)
  have st: "start x w = (Inr (), ?w')"
    using a by (simp add: start_def dockerCall_calm calm_def isOk_def)
  have "calm L ?w'"
    using a calm_progress [of L w] by (simp add: calm_def serverIds_def start_keeps_labels del: map_map)
  moreover have "x \<in> Id ` set (containers ?w')"
    using a ids by simp
  ultimately show "\<exists>u. fst (start x w) = Inr u \<and> calm L (snd (start x w))
       \<and> x \<in> Id ` set (containers (snd (start x w)))"
    unfolding st by simp
qed

lemma calm_inspect:
  "triple (\<lambda>w. calm L w \<and> x \<in> Id ` set (containers w)) (inspect x)
     (\<lambda>r w. \<exists>ci. r = Inr ci \<and> calm L w)"
proof (rule tripleI)
  fix w assume a: "calm L w \<and> x \<in> Id ` set (containers w)"
  then obtain c where "find (\<lambda>c. Id c = x) (containers w) = Some c"
    by (cases "find (\<lambda>c. Id c = x) (containers w)") (auto simp: find_None_iff)
  with a calm_progress [of L w] show "\<exists>ci. fst (inspect x w) = Inr ci \<and> calm L (snd (inspect x w))"
    by (simp add: inspect_def dockerCall_calm calm_def)
qed

lemma buildContainerConfig_label:
  "map_of (Labels (fst (buildContainerConfig cfg p sid md))) ''server-id'' = Some sid"
  by (simp add: buildContainerConfig_def applyPortConfig_def applyNetworkConfig_def
      initialContainerConfig_def ensureHostConfig_def Let_def)

lemma buildContainerConfig_name:
  "containerName (fst (buildContainerConfig cfg p sid md)) = sid"
  by (simp add: buildContainerConfig_def applyPortConfig_def applyNetworkConfig_def
      initialContainerConfig_def ensureHostConfig_def Let_def)

lemma buildContainerConfig_HostConfig:
  "HostConfig (fst (buildContainerConfig cfg p sid md)) \<noteq> None"
  by (simp add: buildContainerConfig_def applyPortConfig_def applyNetworkConfig_def
      initialContainerConfig_def ensureHostConfig_def Let_def)

lemma calm_createAndStart:
  "triple (\<lambda>w. calm L w \<and> sid \<notin> Name ` set (containers w)) (createAndStart cfg hdp sid md)
     (\<lambda>r w. r = Inr Completed \<and> calm (L @ [Some sid]) w)"
proof -
  obtain cc pr where b: "buildContainerConfig cfg (path_join hdp sid) sid md = (cc, pr)"
    by (cases "buildContainerConfig cfg (path_join hdp sid) sid md")
  have lbl: "map_of (Labels cc) ''server-id'' = Some sid"
    using buildContainerConfig_label [of cfg "path_join hdp sid" sid md] b by simp
  have nm: "containerName cc = sid"
    using buildContainerConfig_name [of cfg "path_join hdp sid" sid md] b by simp
  have img: "Image cc = BEDROCK_IMAGE"
    using Image_buildContainerConfig [of cfg "path_join hdp sid" sid md] b by simp
  obtain h where h: "HostConfig cc = Some h"
    using buildContainerConfig_HostConfig [of cfg "path_join hdp sid" sid md] b by auto
  have log: "triple (calm L') (consoleLog l) (\<lambda>r w. \<exists>x. r = Inr x \<and> calm L' w)" for L' l
    using calm_consoleLog [of L' "\<lambda>cs. True" l] by simp
  have netlog: "triple (calm L')
      (if truthy (js_or (network md) (DOCKER_NETWORK cfg))
       then case HostConfig cc of None \<Rightarrow> (\<lambda>w. (Inl ''TypeError'', w))
            | Some h \<Rightarrow> consoleLog (LogNetworkType (NetworkMode h))
       else ret ()) (\<lambda>r w. \<exists>x. r = Inr x \<and> calm L' w)" for L'
    using log [of L'] by (simp add: h triple_def ret_def)
  show ?thesis
    unfolding createAndStart_def b prod.case
    apply (rule seq_value [OF calm_consoleLog [where A = "\<lambda>cs. sid \<notin> Name ` set cs"]])
    apply (rule seq_value [OF calm_ensureImage [where A = "\<lambda>cs. sid \<notin> Name ` set cs"]])
    apply (rule seq_value [OF triple_weaken [OF calm_createContainer [OF img, of L]]])
      apply (simp add: nm)
     apply assumption
    apply (simp only: lbl)
    apply (rule seq_value [OF calm_start])
    apply (rule seq_value [OF calm_inspect])
    apply (rule seq_value [OF log])
    apply (rule seq_value [OF netlog])
    apply (rule seq_value [OF log])
    apply (rule triple_ret)
    apply simp
    done
qed


subsection \<open>Counting over the loop\<close>

lemma processingLines_no_skip: "filter isSkipReport (processingLines sid md) = []"
  by (simp add: processingLines_def isSkipReport_def)

lemma processServer_skips:
  "countLines isSkipReport (snd (processServer cfg dir hdp sid w))
     = countLines isSkipReport w
       + (if fst (processServer cfg dir hdp sid w) = Inr Continue then 1 else 0)"
proof (cases "metadataJson dir sid")
  case NoFile
  then show ?thesis by (simp add: processServer_noFile isSkipReport_def)
next
  case (Unreadable msg)
  then show ?thesis by (simp add: processServer_unreadable)
next
  case (Json md)
  let ?w1 = "w\<lparr>console := console w @ processingLines sid md\<rparr>"
  have c1: "countLines isSkipReport ?w1 = countLines isSkipReport w"
    by (simp add: processingLines_no_skip)
  show ?thesis
  proof (cases "nextFault ?w1")
    case (Some msg)
    let ?w2 = "(progress ?w1)\<lparr>faults := tl (faults ?w1),
                    calls := calls ?w1 @ [(ListContainers, False)],
                    console := console ?w1 @ [LogErrorChecking msg]\<rparr>"
    have "counted isSkipReport (countLines isSkipReport w) ?w2"
      by (simp add: counted_def processingLines_no_skip isSkipReport_def)
    from tripleD [OF count_createAndStart [OF skip_quiet] this]
    show ?thesis
      by (simp add: processServer_readable [OF Json] checkExisting_refused [OF Some] counted_def)
  next
    case None
    show ?thesis
    proof (cases "find (\<lambda>c. labelOf c ''server-id'' = Some sid) (containers ?w1)")
      case (Some c)
      from checkExisting_found [OF None Some] show ?thesis
        by (simp add: processServer_readable [OF Json] processingLines_no_skip isSkipReport_def)
    next
      case absent: None
      let ?w2 = "(progress ?w1)\<lparr>faults := tl (faults ?w1),
                      calls := calls ?w1 @ [(ListContainers, True)]\<rparr>"
      have "counted isSkipReport (countLines isSkipReport w) ?w2"
        by (simp add: counted_def processingLines_no_skip)
      from tripleD [OF count_createAndStart [OF skip_quiet] this]
      show ?thesis
        by (simp add: processServer_readable [OF Json] checkExisting_absent [OF None absent]
            counted_def)
    qed
  qed
qed

lemma iteration_counts:
  assumes "iteration cfg dir hdp sid (w, s, f) = (w', s', f')"
  shows "s' + f' + countLines isSkipReport w' = Suc (s + f + countLines isSkipReport w)"
    and "s \<le> s'" and "f \<le> f'"
  using assms processServer_skips [of cfg dir hdp sid w]
  by (cases "processServer cfg dir hdp sid w";
      auto simp: iteration_def isSkipReport_def split: sum.splits flow.splits)+

lemma serverLoop_counts:
  assumes "serverLoop cfg dir hdp sids (w, s, f) = (w', s', f')"
  shows "s' + f' + countLines isSkipReport w' = s + f + countLines isSkipReport w + length sids"
  using assms
proof (induction sids arbitrary: w s f)
  case Nil
  then show ?case by simp
next
  case (Cons sid sids)
  obtain w1 s1 f1 where it: "iteration cfg dir hdp sid (w, s, f) = (w1, s1, f1)"
    by (cases "iteration cfg dir hdp sid (w, s, f)")
  with Cons.prems have "serverLoop cfg dir hdp sids (w1, s1, f1) = (w', s', f')" by simp
  from Cons.IH [OF this] iteration_counts(1) [OF it] show ?case by simp
qed


lemma iteration_unreadable:
  assumes "corrupted dir sid"
  shows "\<exists>msg. iteration cfg dir hdp sid (w, s, f) = (w\<lparr>console := console w @ [LogError msg]\<rparr>, s, Suc f)"
proof -
  from assms obtain msg where "metadataJson dir sid = Unreadable msg"
    by (cases "metadataJson dir sid") (auto simp: corrupted_def)
  then have "iteration cfg dir hdp sid (w, s, f)
      = (w\<lparr>console := console w @ [LogError msg]\<rparr>, s, Suc f)"
    by (simp add: iteration_def processServer_unreadable)
  then show ?thesis by blast
qed

lemma serverLoop_failures:
  assumes "serverLoop cfg dir hdp sids (w, s, f) = (w', s', f')"
  shows "f + length (filter (corrupted dir) sids) \<le> f'"
  using assms
proof (induction sids arbitrary: w s f)
  case Nil
  then show ?case by simp
next
  case (Cons sid sids)
  obtain w1 s1 f1 where it: "iteration cfg dir hdp sid (w, s, f) = (w1, s1, f1)"
    by (cases "iteration cfg dir hdp sid (w, s, f)")
  with Cons.prems have loop: "serverLoop cfg dir hdp sids (w1, s1, f1) = (w', s', f')" by simp
  have "f + (if corrupted dir sid then 1 else 0) \<le> f1"
    using iteration_unreadable [of dir sid cfg hdp w s f] iteration_counts(3) [OF it] it
    by auto
  with Cons.IH [OF loop] show ?case by (auto split: if_splits)
qed

subsection \<open>The whole batch\<close>

lemma resolvedPath_console [simp]:
  "resolvedPath cfg (w\<lparr>console := c\<rparr>) = resolvedPath cfg w"
  by (cases "nextFault w") (simp_all add: resolvedPath_def getHostDataPath_value)

lemma getHostDataPath_Inr: "fst (getHostDataPath cfg w) = Inr (resolvedPath cfg w)"
  by (simp add: resolvedPath_def getHostDataPath_value)

lemma recreateServers_run:
  assumes "dirExists dir" and "dirEntries dir = Inr items" and "serverDirsOf items \<noteq> []"
  shows "recreateServers cfg dir w =
     (case serverLoop cfg dir (resolvedPath cfg w) (serverDirsOf items)
             (loopStart cfg (length (serverDirsOf items)) w, 0, 0) of
        (w', successCount, failureCount) \<Rightarrow>
          (Returned,
           w'\<lparr>console := console w' @ summaryLines successCount failureCount\<rparr>))"
proof -
  let ?w1 = "w\<lparr>console := console w @ bannerLines cfg\<rparr>"
  obtain r w2 where g: "getHostDataPath cfg ?w1 = (r, w2)" by (cases "getHostDataPath cfg ?w1")
  with getHostDataPath_Inr [of cfg ?w1] have r: "r = Inr (resolvedPath cfg w)" by simp
  show ?thesis
    using assms g r
    by (simp add: recreateServers_def recreateServersBody_def tryCatch_def andThen_def
        consoleLogs_def consoleLog_def ret_def Let_def loopStart_def bannerLines_def
        split: prod.splits)
qed

lemma getHostDataPath_skips:
  "countLines isSkipReport (snd (getHostDataPath cfg w)) = countLines isSkipReport w"
proof (cases "nextFault w")
  case None
  then show ?thesis
    by (simp add: getHostDataPath_def tryCatch_def andThen_def consoleLog_def ret_def
        listContainers_def dockerCall_served findMinecraftMount_dataMounts isOk_def
        countLines_def isSkipReport_def split: list.splits)
next
  case (Some msg)
  then show ?thesis
    by (simp add: getHostDataPath_def tryCatch_def andThen_def consoleLog_def ret_def
        listContainers_def dockerCall_refused countLines_def isSkipReport_def)
qed

lemma loopStart_skips: "countLines isSkipReport (loopStart cfg n w) = countLines isSkipReport w"
  by (simp add: loopStart_def Let_def getHostDataPath_skips bannerLines_def isSkipReport_def)

lemma summaryLines_no_skip: "filter isSkipReport (summaryLines s f) = []"
  by (simp add: summaryLines_def isSkipReport_def)

subsection \<open>Every creation binds under the resolved path\<close>

lemma allBoundUnder_frame [simp]:
  "allBoundUnder h (w\<lparr>console := c\<rparr>) = allBoundUnder h w"
  "allBoundUnder h (w\<lparr>faults := f\<rparr>) = allBoundUnder h w"
  "allBoundUnder h (w\<lparr>containers := cs\<rparr>) = allBoundUnder h w"
  "allBoundUnder h (w\<lparr>images := im\<rparr>) = allBoundUnder h w"
  "allBoundUnder h (w\<lparr>idSupply := ids\<rparr>) = allBoundUnder h w"
  "allBoundUnder h (w\<lparr>pulling := ps\<rparr>) = allBoundUnder h w"
  "allBoundUnder h (progress w) = allBoundUnder h w"
  by (simp_all add: allBoundUnder_def)

lemma allBoundUnder_snoc:
  "allBoundUnder h (w\<lparr>calls := calls v @ [e]\<rparr>) = (allBoundUnder h v \<and> boundUnder h e)"
  by (simp add: allBoundUnder_def)

lemma bound_consoleLog: "triple (allBoundUnder h) (consoleLog l) (\<lambda>r. allBoundUnder h)"
  by (rule triple_consoleLog) simp

lemma bound_consoleLogs: "triple (allBoundUnder h) (consoleLogs ls) (\<lambda>r. allBoundUnder h)"
  by (rule triple_consoleLogs) simp

lemma bound_listContainers: "triple (allBoundUnder h) listContainers (\<lambda>r. allBoundUnder h)"
  unfolding listContainers_def
  by (rule triple_dockerCall) (auto simp: allBoundUnder_snoc boundUnder_def)

lemma bound_inspectImage: "triple (allBoundUnder h) (inspectImage i) (\<lambda>r. allBoundUnder h)"
  unfolding inspectImage_def
  by (rule triple_dockerCall) (auto simp: allBoundUnder_snoc boundUnder_def split: if_splits)

lemma bound_pull: "triple (allBoundUnder h) (pull i) (\<lambda>r. allBoundUnder h)"
  unfolding pull_def
  by (rule triple_dockerCall) (auto simp: allBoundUnder_snoc boundUnder_def)

lemma bound_start: "triple (allBoundUnder h) (start c) (\<lambda>r. allBoundUnder h)"
  unfolding start_def
  by (rule triple_dockerCall) (auto simp: allBoundUnder_snoc boundUnder_def)

lemma bound_inspect: "triple (allBoundUnder h) (inspect c) (\<lambda>r. allBoundUnder h)"
  unfolding inspect_def
  by (rule triple_dockerCall) (auto simp: allBoundUnder_snoc boundUnder_def split: option.splits)

lemma bound_readJson: "triple (allBoundUnder h) (readJson dir sid) (\<lambda>r. allBoundUnder h)"
  by (auto simp: triple_def readJson_def split: metadataFile.splits)

lemma bound_createContainer:
  assumes "bindsOf cc = [path_join h (containerName cc) @ '':/data'']"
  shows "triple (allBoundUnder h) (createContainer cc) (\<lambda>r. allBoundUnder h)"
  unfolding createContainer_def
  by (rule triple_dockerCall)
    (auto simp: allBoundUnder_snoc boundUnder_def assms Let_def split: if_splits)

lemmas bound_rules = keep_andThen keep_tryCatch keep_ret keep_throw keep_if
  bound_consoleLog bound_consoleLogs bound_listContainers bound_inspectImage bound_pull
  bound_start bound_inspect bound_readJson

lemma buildContainerConfig_binds:
  "bindsOf (fst (buildContainerConfig cfg (path_join h sid) sid md))
     = [path_join h (containerName (fst (buildContainerConfig cfg (path_join h sid) sid md)))
        @ '':/data'']"
  by (simp add: buildContainerConfig_def applyPortConfig_def applyNetworkConfig_def
      initialContainerConfig_def ensureHostConfig_def Let_def bindsOf_def)

lemma bound_createAndStart:
  "triple (allBoundUnder h) (createAndStart cfg h sid md) (\<lambda>r. allBoundUnder h)"
proof -
  obtain cc pr where b: "buildContainerConfig cfg (path_join h sid) sid md = (cc, pr)"
    by (cases "buildContainerConfig cfg (path_join h sid) sid md")
  then have binds: "bindsOf cc = [path_join h (containerName cc) @ '':/data'']"
    using buildContainerConfig_binds [of cfg h sid md] by simp
  show ?thesis
    unfolding createAndStart_def b prod.case ensureImage_def
    by (auto split: option.splits intro!: bound_rules bound_createContainer [OF binds])
qed

lemma bound_checkExisting:
  "triple (allBoundUnder h) (checkExisting sid) (\<lambda>r. allBoundUnder h)"
  unfolding checkExisting_def
  by (auto split: option.splits intro!: bound_rules)

lemma bound_processServer:
  "triple (allBoundUnder h) (processServer cfg dir h sid) (\<lambda>r. allBoundUnder h)"
  unfolding processServer_def
  by (auto intro!: bound_rules bound_checkExisting bound_createAndStart)

lemma bound_getHostDataPath:
  "triple (allBoundUnder h) (getHostDataPath cfg) (\<lambda>r. allBoundUnder h)"
  unfolding getHostDataPath_def
  by (auto split: option.splits intro!: bound_rules)

lemma bound_iteration:
  "allBoundUnder h (fst st) \<Longrightarrow> allBoundUnder h (fst (iteration cfg dir h sid st))"
  using tripleD [OF bound_processServer, of h "fst st" cfg dir sid]
  by (cases st; cases "processServer cfg dir h sid (fst st)")
    (auto simp: iteration_def split: sum.splits flow.splits)

lemma bound_serverLoop:
  "allBoundUnder h (fst st) \<Longrightarrow> allBoundUnder h (fst (serverLoop cfg dir h sids st))"
proof (induction sids arbitrary: st)
  case Nil
  then show ?case by simp
next
  case (Cons sid sids)
  from Cons.prems have "allBoundUnder h (fst (iteration cfg dir h sid st))"
    by (rule bound_iteration)
  from Cons.IH [OF this] show ?case by simp
qed

lemma bound_loopStep:
  "triple (allBoundUnder h)
     (\<lambda>w. case serverLoop cfg dir h sids (w, 0, 0) of
            (w', successCount, failureCount) \<Rightarrow>
              (Inr Returned,
               w'\<lparr>console := console w' @ summaryLines successCount failureCount\<rparr>))
     (\<lambda>r. allBoundUnder h)"
proof (rule tripleI)
  fix w assume "allBoundUnder h w"
  then have "allBoundUnder h (fst (serverLoop cfg dir h sids (w, 0, 0)))"
    using bound_serverLoop [of h "(w, 0, 0)"] by simp
  then show "allBoundUnder h (snd (case serverLoop cfg dir h sids (w, 0, 0) of
            (w', successCount, failureCount) \<Rightarrow>
              (Inr Returned,
               w'\<lparr>console := console w' @ summaryLines successCount failureCount\<rparr>)))"
    by (cases "serverLoop cfg dir h sids (w, 0, 0)") simp
qed

lemma bound_resolve:
  "triple (\<lambda>w. allBoundUnder h w \<and> resolvedPath cfg w = h) (getHostDataPath cfg)
     (\<lambda>r w. \<exists>x. r = Inr x \<and> allBoundUnder h w \<and> x = h)"
proof (rule tripleI)
  fix w assume a: "allBoundUnder h w \<and> resolvedPath cfg w = h"
  with tripleD [OF bound_getHostDataPath, of h w cfg] getHostDataPath_Inr [of cfg w]
  show "\<exists>x. fst (getHostDataPath cfg w) = Inr x \<and> allBoundUnder h (snd (getHostDataPath cfg w))
      \<and> x = h" by simp
qed

lemma bound_recreateServersBody:
  "triple (\<lambda>w. allBoundUnder h w \<and> resolvedPath cfg w = h) (recreateServersBody cfg dir)
     (\<lambda>r. allBoundUnder h)"
proof -
  have banner: "triple (\<lambda>w. allBoundUnder h w \<and> resolvedPath cfg w = h)
      (consoleLogs [LogBanner, LogDataDirectory (DATA_DIR cfg),
                 LogDockerNetwork (or_default (DOCKER_NETWORK cfg) ''default (bridge)''),
                 LogSshEnabled (ENABLE_SSH cfg)])
      (\<lambda>r w. \<exists>x. r = Inr x \<and> allBoundUnder h w \<and> resolvedPath cfg w = h)"
    by (rule triple_consoleLogs) simp
  have rest: "triple (allBoundUnder h)
      (andThen (\<lambda>w. (dirEntries dir, w)) (\<lambda>items.
       let serverDirs = serverDirsOf items in
       if length serverDirs = 0 then
         andThen (consoleLog LogNoServerDirs) (\<lambda>_. ret (Exit 0))
       else
         andThen (consoleLog (LogFoundServerDirs (length serverDirs))) (\<lambda>_.
         (\<lambda>w. case serverLoop cfg dir h serverDirs (w, 0, 0) of
                (w', successCount, failureCount) \<Rightarrow>
                  (Inr Returned,
                   w'\<lparr>console := console w' @ summaryLines successCount failureCount\<rparr>)))))
      (\<lambda>r. allBoundUnder h)"
    unfolding Let_def
    apply (intro bound_rules bound_loopStep)
    apply (simp add: triple_def)
    done
  have missing: "triple (\<lambda>w. allBoundUnder h w \<and> resolvedPath cfg w = h)
      (andThen (consoleLog (LogDataDirNotFound (DATA_DIR cfg))) (\<lambda>_. ret (Exit 1)))
      (\<lambda>r. allBoundUnder h)"
    by (rule triple_weaken [where P = "allBoundUnder h" and Q = "\<lambda>r. allBoundUnder h"])
      (auto intro!: bound_rules)
  have found: "triple (\<lambda>w. allBoundUnder h w \<and> resolvedPath cfg w = h)
      (andThen (getHostDataPath cfg) (\<lambda>hostDataPath.
       andThen (\<lambda>w. (dirEntries dir, w)) (\<lambda>items.
       let serverDirs = serverDirsOf items in
       if length serverDirs = 0 then
         andThen (consoleLog LogNoServerDirs) (\<lambda>_. ret (Exit 0))
       else
         andThen (consoleLog (LogFoundServerDirs (length serverDirs))) (\<lambda>_.
         (\<lambda>w. case serverLoop cfg dir hostDataPath serverDirs (w, 0, 0) of
                (w', successCount, failureCount) \<Rightarrow>
                  (Inr Returned,
                   w'\<lparr>console := console w' @ summaryLines successCount failureCount\<rparr>))))))
      (\<lambda>r. allBoundUnder h)"
    apply (rule seq_value [OF bound_resolve])
    apply (rule tripleI)
    apply (use rest in \<open>auto dest: tripleD\<close>)
    done
  show ?thesis
    unfolding recreateServersBody_def
    apply (rule seq_value [OF banner])
    apply (cases "dirExists dir")
     apply (simp only: not_True_eq_False if_False)
     apply (rule found)
    apply (simp only: not_False_eq_True if_True)
    apply (rule missing)
    done
qed

lemma bound_recreateServers:
  assumes "allBoundUnder (resolvedPath cfg w) w"
  shows "allBoundUnder (resolvedPath cfg w) (snd (recreateServers cfg dir w))"
proof -
  let ?h = "resolvedPath cfg w"
  have "triple (\<lambda>v. allBoundUnder ?h v \<and> resolvedPath cfg v = ?h)
          (tryCatch (recreateServersBody cfg dir)
             (\<lambda>err. andThen (consoleLog (LogFatal err)) (\<lambda>_. ret (Exit 1))))
          (\<lambda>r. allBoundUnder ?h)"
    apply (rule triple_tryCatch [where R = "\<lambda>e. allBoundUnder ?h"])
     apply (rule triple_weaken [OF bound_recreateServersBody], assumption)
     apply (simp split: sum.splits)
    apply (intro bound_rules)
    done
  from tripleD [OF this, of w] assms show ?thesis
    by (auto simp: recreateServers_def split: prod.splits sum.splits)
qed

lemma resolvedPath_calls [simp]: "resolvedPath cfg (w\<lparr>calls := c\<rparr>) = resolvedPath cfg w"
  by (cases "nextFault w") (simp_all add: resolvedPath_def getHostDataPath_value)

subsection \<open>Counting the calls\<close>

lemma countCalls_frame [simp]:
  "countCalls p (w\<lparr>console := c\<rparr>) = countCalls p w"
  "countCalls p (w\<lparr>faults := f\<rparr>) = countCalls p w"
  "countCalls p (w\<lparr>containers := cs\<rparr>) = countCalls p w"
  "countCalls p (w\<lparr>images := im\<rparr>) = countCalls p w"
  "countCalls p (w\<lparr>idSupply := ids\<rparr>) = countCalls p w"
  "countCalls p (w\<lparr>pulling := ps\<rparr>) = countCalls p w"
  "countCalls p (progress w) = countCalls p w"
  by (simp_all add: countCalls_def)

lemma countCalls_snoc [simp]:
  "countCalls p (w\<lparr>calls := calls v @ [e]\<rparr>) = countCalls p v + (if p e then 1 else 0)"
  by (simp add: countCalls_def)

lemmas tally_defs = tallied_def failedAfter_def attempts_def inspected_def failedCalls_def
  isCreation_def isInspected_def isFailure_def

lemma tallied_console [simp]: "tallied a i fl (w\<lparr>console := c\<rparr>) = tallied a i fl w"
  by (simp add: tally_defs)

lemma tally_consoleLog:
  "triple (tallied a i fl) (consoleLog l)
     (\<lambda>r w. case r of Inl e \<Rightarrow> False | Inr x \<Rightarrow> tallied a i fl w)"
  by (rule triple_consoleLog) simp

lemma tally_inspectImage:
  "triple (tallied a i fl) (inspectImage img) (\<lambda>r. tallied a i fl)"
  unfolding inspectImage_def
  by (rule triple_dockerCall) (auto simp: tally_defs isOk_def split: if_splits)

lemma tally_pull:
  "triple (tallied a i fl) (pull img)
     (\<lambda>r w. case r of Inl e \<Rightarrow> tallied a i (fl + 1) w | Inr x \<Rightarrow> tallied a i fl w)"
  unfolding pull_def
  by (rule triple_dockerCall) (auto simp: tally_defs isOk_def)

lemma tally_createContainer:
  "triple (tallied a i fl) (createContainer cc)
     (\<lambda>r w. case r of Inl e \<Rightarrow> tallied (a + 1) i (fl + 1) w | Inr x \<Rightarrow> tallied (a + 1) i fl w)"
  unfolding createContainer_def
  by (rule triple_dockerCall) (auto simp: tally_defs isOk_def Let_def split: if_splits)

lemma tally_start:
  "triple (tallied a i fl) (start c)
     (\<lambda>r w. case r of Inl e \<Rightarrow> tallied a i (fl + 1) w | Inr x \<Rightarrow> tallied a i fl w)"
  unfolding start_def
  by (rule triple_dockerCall) (auto simp: tally_defs isOk_def)

lemma tally_inspect:
  "triple (tallied a i fl) (inspect c)
     (\<lambda>r w. case r of Inl e \<Rightarrow> tallied a i (fl + 1) w | Inr x \<Rightarrow> tallied a (i + 1) fl w)"
  unfolding inspect_def
  by (rule triple_dockerCall) (auto simp: tally_defs isOk_def split: option.splits)

lemma seq_case:
  assumes "triple P m (\<lambda>r w. case r of Inl e \<Rightarrow> F w | Inr x \<Rightarrow> R w)"
    and "\<And>e w. F w \<Longrightarrow> Q (Inl e) w"
    and "\<And>x. triple R (f x) Q"
  shows "triple P (andThen m f) Q"
  by (rule triple_andThen [where R = "\<lambda>x. R"])
    (use assms in \<open>auto simp: triple_def split: sum.splits\<close>)

lemma tally_ensureImage:
  "triple (tallied a i fl) ensureImage
     (\<lambda>r w. case r of Inl e \<Rightarrow> tallied a i (fl + 1) w | Inr x \<Rightarrow> tallied a i fl w)"
  unfolding ensureImage_def
  apply (rule triple_tryCatch [where R = "\<lambda>e. tallied a i fl"])
   apply (rule triple_weaken [OF tally_inspectImage], assumption)
   apply (simp split: sum.splits)
  apply (rule seq_case [OF tally_consoleLog])
   apply simp
  apply (rule tally_pull)
  done

lemma tally_createAndStart:
  "triple (tallied a i fl) (createAndStart cfg hdp sid md)
     (\<lambda>r w. case r of Inl e \<Rightarrow> failedAfter a i fl w
             | Inr x \<Rightarrow> x = Completed \<and> tallied (a + 1) (i + 1) fl w)"
proof -
  obtain cc pr where b: "buildContainerConfig cfg (path_join hdp sid) sid md = (cc, pr)"
    by (cases "buildContainerConfig cfg (path_join hdp sid) sid md")
  obtain h where h: "HostConfig cc = Some h"
    using buildContainerConfig_HostConfig [of cfg "path_join hdp sid" sid md] b by auto
  have netlog: "triple (tallied a' i' fl')
      (if truthy (js_or (network md) (DOCKER_NETWORK cfg))
       then case HostConfig cc of None \<Rightarrow> (\<lambda>w. (Inl ''TypeError'', w))
            | Some h \<Rightarrow> consoleLog (LogNetworkType (NetworkMode h))
       else ret ())
      (\<lambda>r w. case r of Inl e \<Rightarrow> False | Inr x \<Rightarrow> tallied a' i' fl' w)" for a' i' fl'
    by (simp add: h triple_def ret_def consoleLog_def)
  show ?thesis
    unfolding createAndStart_def b prod.case
    apply (rule seq_case [OF tally_consoleLog], simp)
    apply (rule seq_case [OF tally_ensureImage], simp add: tally_defs)
    apply (rule seq_case [OF tally_createContainer], simp add: tally_defs)
    apply (rule seq_case [OF tally_start], simp add: tally_defs)
    apply (rule seq_case [OF tally_inspect], simp add: tally_defs)
    apply (rule seq_case [OF tally_consoleLog], simp)
    apply (rule seq_case [OF netlog], simp)
    apply (rule seq_case [OF tally_consoleLog], simp)
    apply (rule triple_ret, simp)
    done
qed

lemma processServer_tally:
  "case fst (processServer cfg dir hdp sid w) of
     Inr Continue \<Rightarrow>
       tallied (attempts w) (inspected w) (failedCalls w) (snd (processServer cfg dir hdp sid w))
   | Inr Completed \<Rightarrow>
       attempts (snd (processServer cfg dir hdp sid w)) = attempts w + 1
       \<and> inspected (snd (processServer cfg dir hdp sid w)) = inspected w + 1
       \<and> failedCalls w \<le> failedCalls (snd (processServer cfg dir hdp sid w))
   | Inl e \<Rightarrow>
       attempts w \<le> attempts (snd (processServer cfg dir hdp sid w))
       \<and> attempts (snd (processServer cfg dir hdp sid w)) \<le> attempts w + 1
       \<and> inspected (snd (processServer cfg dir hdp sid w)) = inspected w
       \<and> failedCalls w \<le> failedCalls (snd (processServer cfg dir hdp sid w))
       \<and> (\<not> corrupted dir sid
            \<longrightarrow> failedCalls w < failedCalls (snd (processServer cfg dir hdp sid w)))"
proof (cases "metadataJson dir sid")
  case NoFile
  then show ?thesis by (simp add: processServer_noFile tally_defs)
next
  case (Unreadable msg)
  then show ?thesis by (simp add: processServer_unreadable corrupted_def)
next
  case (Json md)
  let ?w1 = "w\<lparr>console := console w @ processingLines sid md\<rparr>"
  show ?thesis
  proof (cases "nextFault ?w1")
    case (Some msg)
    let ?w2 = "(progress ?w1)\<lparr>faults := tl (faults ?w1),
                    calls := calls ?w1 @ [(ListContainers, False)],
                    console := console ?w1 @ [LogErrorChecking msg]\<rparr>"
    have "tallied (attempts w) (inspected w) (failedCalls w + 1) ?w2"
      by (simp add: tally_defs)
    from tripleD [OF tally_createAndStart this, of cfg hdp sid md]
    show ?thesis
      by (simp add: processServer_readable [OF Json] checkExisting_refused [OF Some]
          tallied_def failedAfter_def corrupted_def Json split: sum.splits flow.splits)
  next
    case None
    show ?thesis
    proof (cases "find (\<lambda>c. labelOf c ''server-id'' = Some sid) (containers ?w1)")
      case (Some c)
      from checkExisting_found [OF None Some] show ?thesis
        by (simp add: processServer_readable [OF Json] tally_defs)
    next
      case absent: None
      let ?w2 = "(progress ?w1)\<lparr>faults := tl (faults ?w1),
                      calls := calls ?w1 @ [(ListContainers, True)]\<rparr>"
      have "tallied (attempts w) (inspected w) (failedCalls w) ?w2"
        by (simp add: tally_defs)
      from tripleD [OF tally_createAndStart this, of cfg hdp sid md]
      show ?thesis
        by (simp add: processServer_readable [OF Json] checkExisting_absent [OF None absent]
            tallied_def failedAfter_def corrupted_def Json split: sum.splits flow.splits)
    qed
  qed
qed

lemma tally_frame [simp]:
  "attempts (w\<lparr>console := c\<rparr>) = attempts w"
  "inspected (w\<lparr>console := c\<rparr>) = inspected w"
  "failedCalls (w\<lparr>console := c\<rparr>) = failedCalls w"
  by (simp_all add: attempts_def inspected_def failedCalls_def)

lemma iteration_tally:
  assumes "iteration cfg dir hdp sid (w, s, f) = (w', s', f')"
  shows "inspected w' + s = inspected w + s'"
    and "attempts w + s' \<le> attempts w' + s"
    and "attempts w' + s + f \<le> attempts w + s' + f'"
    and "f' + failedCalls w \<le> f + (if corrupted dir sid then 1 else 0) + failedCalls w'"
    and "failedCalls w \<le> failedCalls w'"
  using assms processServer_tally [where cfg = cfg and dir = dir and hdp = hdp and sid = sid and w = w]
  by (cases "processServer cfg dir hdp sid w";
      auto simp: iteration_def tallied_def split: sum.splits flow.splits)+

lemma serverLoop_tally:
  assumes "serverLoop cfg dir hdp sids (w, s, f) = (w', s', f')"
  shows "inspected w' + s = inspected w + s'
       \<and> attempts w + s' \<le> attempts w' + s
       \<and> attempts w' + s + f \<le> attempts w + s' + f'
       \<and> f' + failedCalls w \<le> f + length (filter (corrupted dir) sids) + failedCalls w'
       \<and> failedCalls w \<le> failedCalls w'"
  using assms
proof (induction sids arbitrary: w s f)
  case Nil
  then show ?case by simp
next
  case (Cons sid sids)
  obtain w1 s1 f1 where it: "iteration cfg dir hdp sid (w, s, f) = (w1, s1, f1)"
    by (cases "iteration cfg dir hdp sid (w, s, f)")
  with Cons.prems have "serverLoop cfg dir hdp sids (w1, s1, f1) = (w', s', f')" by simp
  from Cons.IH [OF this] iteration_tally [OF it] iteration_counts(2,3) [OF it]
  show ?case by (auto split: if_splits)
qed


subsection \<open>Whether the creation is reached\<close>

lemma attempts_frame [simp]:
  "attempts (w\<lparr>calls := calls v @ [e]\<rparr>) = attempts v + (if isCreation e then 1 else 0)"
  "attempts (w\<lparr>faults := fs\<rparr>) = attempts w"
  "attempts (w\<lparr>containers := cs\<rparr>) = attempts w"
  "attempts (w\<lparr>idSupply := ids\<rparr>) = attempts w"
  "attempts (w\<lparr>pulling := ps\<rparr>) = attempts w"
  "attempts (progress w) = attempts w"
  by (simp_all add: attempts_def)

lemma reach_ensureImage:
  "triple (\<lambda>w. faults w = [] \<and> attempts w = a) ensureImage
     (\<lambda>r w. isOk r \<and> faults w = [] \<and> attempts w = a)"
proof (rule tripleI)
  fix w assume "faults w = [] \<and> attempts w = a"
  then show "isOk (fst (ensureImage w)) \<and> faults (snd (ensureImage w)) = []
      \<and> attempts (snd (ensureImage w)) = a"
    by (cases "BEDROCK_IMAGE \<in> set (images (progress w))")
      (simp_all add: ensureImage_def tryCatch_def inspectImage_def dockerCall_calm andThen_def
        consoleLog_def pull_def isOk_def isCreation_def attempts_def countCalls_def)
qed

lemma reach_createContainer:
  "triple (\<lambda>w. faults w = [] \<and> attempts w = a) (createContainer cc)
     (\<lambda>r w. case r of Inl e \<Rightarrow> attempts w = a + 1 | Inr x \<Rightarrow> attempts w = a + 1)"
  unfolding createContainer_def
  by (rule triple_dockerCall) (auto simp: isCreation_def Let_def split: if_splits sum.splits)

lemma reach_start: "triple (\<lambda>w. attempts w = n) (start c) (\<lambda>r w. attempts w = n)"
  unfolding start_def
  by (rule triple_dockerCall) (auto simp: isCreation_def)

lemma reach_inspect: "triple (\<lambda>w. attempts w = n) (inspect c) (\<lambda>r w. attempts w = n)"
  unfolding inspect_def
  by (rule triple_dockerCall) (auto simp: isCreation_def split: option.splits)

lemma reach_consoleLog: "triple (\<lambda>w. attempts w = n) (consoleLog l) (\<lambda>r w. attempts w = n)"
  by (rule triple_consoleLog) simp

lemma reach_createAndStart:
  "triple (\<lambda>w. faults w = [] \<and> attempts w = a) (createAndStart cfg hdp sid md)
     (\<lambda>r w. attempts w = a + 1)"
proof -
  obtain cc pr where b: "buildContainerConfig cfg (path_join hdp sid) sid md = (cc, pr)"
    by (cases "buildContainerConfig cfg (path_join hdp sid) sid md")
  have first: "triple (\<lambda>w. faults w = [] \<and> attempts w = a) (consoleLog l)
      (\<lambda>r w. isOk r \<and> faults w = [] \<and> attempts w = a)" for l
    by (rule triple_consoleLog) (simp add: isOk_def)
  have rest: "triple (\<lambda>w. attempts w = a + 1)
      (andThen (start container) (\<lambda>_.
       andThen (inspect container) (\<lambda>containerInfo.
       andThen (consoleLog (LogContainerCreated (take 12 (Id containerInfo)))) (\<lambda>_.
       andThen (if truthy (js_or (network md) (DOCKER_NETWORK cfg)) then
                  (case HostConfig cc of
                     None \<Rightarrow> (\<lambda>w. (Inl ''TypeError'', w))
                   | Some h \<Rightarrow> consoleLog (LogNetworkType (NetworkMode h)))
                else ret ()) (\<lambda>_.
       andThen (consoleLog (LogStatus (Status containerInfo))) (\<lambda>_.
       ret Completed))))))
      (\<lambda>r w. attempts w = a + 1)" for container
    by (auto split: option.splits
        intro!: keep_andThen keep_ret keep_throw reach_start reach_inspect reach_consoleLog)
  show ?thesis
    unfolding createAndStart_def b prod.case
    apply (rule seq_total [OF first])
    apply (rule seq_total [OF reach_ensureImage])
    apply (rule seq_case [OF reach_createContainer])
     apply assumption
    apply (rule rest)
    done
qed

lemma conflict_createAndStart:
  assumes "calm L w" and "sid \<in> Name ` set (containers w)"
  shows "fst (createAndStart cfg hdp sid md w)
           = Inl (''Conflict. The container name is already in use: '' @ sid)
       \<and> containers (snd (createAndStart cfg hdp sid md w)) = containers w"
proof -
  obtain cc pr where b: "buildContainerConfig cfg (path_join hdp sid) sid md = (cc, pr)"
    by (cases "buildContainerConfig cfg (path_join hdp sid) sid md")
  have nm: "containerName cc = sid"
    using buildContainerConfig_name [of cfg "path_join hdp sid" sid md] b by simp
  have img: "Image cc = BEDROCK_IMAGE"
    using Image_buildContainerConfig [of cfg "path_join hdp sid" sid md] b by simp
  define l where "l = (case pr of None \<Rightarrow> LogPortNoMapping
                       | Some p \<Rightarrow> if p = 0 then LogPortNoMapping else LogPort p)"
  let ?w1 = "w\<lparr>console := console w @ [l]\<rparr>"
  have "calm L ?w1 \<and> containers ?w1 = containers w" using assms(1) by simp
  from tripleD [OF calm_ensureImage [where A = "\<lambda>cs. cs = containers w"] this]
  obtain x where e: "fst (ensureImage ?w1) = Inr x"
    and c2: "calm L (snd (ensureImage ?w1))"
    and cs: "containers (snd (ensureImage ?w1)) = containers w" by auto
  let ?w2 = "snd (ensureImage ?w1)"
  from c2 have f: "faults ?w2 = []" and i: "BEDROCK_IMAGE \<in> set (images (progress ?w2))"
    by (simp_all add: calm_def images_progress)
  have cr: "fst (createContainer cc ?w2)
        = Inl (''Conflict. The container name is already in use: '' @ sid)
      \<and> containers (snd (createContainer cc ?w2)) = containers w"
    using assms(2) cs i by (simp add: createContainer_def dockerCall_calm [OF f] nm img)
  obtain r2 w3 where en: "ensureImage ?w1 = (r2, w3)" by (cases "ensureImage ?w1")
  with e have r2: "r2 = Inr x" by simp
  obtain r3 w4 where cr2: "createContainer cc w3 = (r3, w4)" by (cases "createContainer cc w3")
  with cr en have r3: "r3 = Inl (''Conflict. The container name is already in use: '' @ sid)"
    and w4: "containers w4 = containers w" by simp_all
  show ?thesis
    unfolding createAndStart_def b prod.case
    by (simp add: andThen_def consoleLog_def l_def [symmetric] en r2 cr2 r3 w4)
qed

subsection \<open>The label of a created container\<close>











lemma getHostDataPath_failed:
  "failedCalls w \<le> failedCalls (snd (getHostDataPath cfg w))"
proof (cases "nextFault w")
  case None
  then show ?thesis
    by (simp add: getHostDataPath_def tryCatch_def andThen_def consoleLog_def ret_def
        listContainers_def dockerCall_served findMinecraftMount_dataMounts isOk_def
        failedCalls_def split: list.splits)
next
  case (Some msg)
  then show ?thesis
    by (simp add: getHostDataPath_def tryCatch_def andThen_def consoleLog_def ret_def
        listContainers_def dockerCall_refused failedCalls_def)
qed

lemma loopStart_failed: "failedCalls w \<le> failedCalls (loopStart cfg n w)"
  using getHostDataPath_failed [of "w\<lparr>console := console w @ bannerLines cfg\<rparr>" cfg]
  by (simp add: loopStart_def Let_def)

subsection \<open>The claims about the batch\<close>

text \<open>
  C7, as the script has it. \<open>getHostDataPath\<close> returns the configured data directory
  when listing the containers throws; otherwise, when any listed container (the listing
  is made with \<open>all: true\<close>, so running or not) has a mount with destination
  \<open>/app/minecraft-data\<close>, it returns the source of the first such mount in the order of
  the listing, and the configured data directory when there is none. A run of
  \<open>recreateServers\<close> that finds its data directory enters \<open>getHostDataPath\<close> exactly once
  (its first line is logged once), whatever the number of servers; a run that does not
  find it never does. Every container that the run creates binds the directory of its
  server under the one path that the resolution returned.
\<close>

theorem host_data_path_resolved_once:
  "fst (getHostDataPath cfg w) =
     Inr (case nextFault w of
            Some msg \<Rightarrow> DATA_DIR cfg
          | None \<Rightarrow> (case dataMounts (containers w) of
                        [] \<Rightarrow> DATA_DIR cfg
                      | m # ms \<Rightarrow> Source m))
   \<and> fst (getHostDataPath cfg w) = Inr (resolvedPath cfg w)
   \<and> countLines isSearch (snd (recreateServers cfg dir w))
       = countLines isSearch w + (if dirExists dir then 1 else 0)
   \<and> allBoundUnder (resolvedPath cfg w) (snd (recreateServers cfg dir (w\<lparr>calls := []\<rparr>)))"
proof -
  have "allBoundUnder (resolvedPath cfg w) (snd (recreateServers cfg dir (w\<lparr>calls := []\<rparr>)))"
    using bound_recreateServers [of cfg "w\<lparr>calls := []\<rparr>" dir]
    by (simp add: allBoundUnder_def)
  then show ?thesis
    by (simp add: getHostDataPath_value getHostDataPath_Inr [symmetric] search_recreateServers)
qed

theorem host_data_path_resolved_once_witness:
  "fst (getHostDataPath exampleConfig stoppedManagerWorld) = Inr ''/srv/minecraft''
   \<and> fst (getHostDataPath exampleConfig emptyWorld) = Inr ''/opt/minecraft-servers''
   \<and> fst (getHostDataPath exampleConfig refusingWorld) = Inr ''/opt/minecraft-servers''
   \<and> countLines isSearch (snd (recreateServers exampleConfig exampleDir emptyWorld)) = 1
   \<and> allBoundUnder ''/opt/minecraft-servers''
         (snd (recreateServers exampleConfig exampleDir emptyWorld))"
proof -
  have e: "emptyWorld\<lparr>calls := []\<rparr> = emptyWorld"
    by (simp add: emptyWorld_def)
  have a: "nextFault stoppedManagerWorld = None"
    "dataMounts (containers stoppedManagerWorld)
       = [\<lparr> Source = ''/srv/minecraft'', Destination = ''/app/minecraft-data'' \<rparr>]"
    "nextFault emptyWorld = None" "dataMounts (containers emptyWorld) = []"
    "nextFault refusingWorld = Some ''socket hang up''"
    "DATA_DIR exampleConfig = ''/opt/minecraft-servers''"
    "countLines isSearch emptyWorld = 0" "dirExists exampleDir"
    by (simp_all add: stoppedManagerWorld_def stoppedManager_def emptyWorld_def nextFault_def
        dataMounts_def dataMountsOf_def refusingWorld_def settledWorld_def readyWorld_def
        exampleConfig_def countLines_def exampleDir_def)
  have r: "resolvedPath exampleConfig emptyWorld = ''/opt/minecraft-servers''"
    by (simp add: resolvedPath_def getHostDataPath_value a)
  show ?thesis
    using host_data_path_resolved_once [of exampleConfig stoppedManagerWorld exampleDir]
      host_data_path_resolved_once [of exampleConfig emptyWorld exampleDir]
      host_data_path_resolved_once [of exampleConfig refusingWorld exampleDir]
    by (simp add: a e r)
qed

text \<open>
  C7 as stated fails: the only container of \<open>stoppedManagerWorld\<close> has the status
  \<open>exited\<close>, so no running instance mounts the data path and the listing does not
  throw, yet the path returned is the source of the mount of the stopped container, not
  the configured data directory.
\<close>

theorem stopped_instance_mount_is_used:
  "runningInstances (containers stoppedManagerWorld) = []
   \<and> nextFault stoppedManagerWorld = None
   \<and> fst (getHostDataPath exampleConfig stoppedManagerWorld) = Inr ''/srv/minecraft''
   \<and> fst (getHostDataPath exampleConfig stoppedManagerWorld) \<noteq> Inr (DATA_DIR exampleConfig)"
  by (simp add: getHostDataPath_value stoppedManagerWorld_def stoppedManager_def emptyWorld_def
      nextFault_def dataMounts_def dataMountsOf_def exampleConfig_def runningInstances_def)

text \<open>
  C9. When the metadata of a server is read and the listing of the containers throws,
  the error is logged (\<open>LogErrorChecking\<close>) and the body goes on exactly as the creation
  path runs from the state with that log line: nothing has been learnt about the
  containers. When only the listing is refused, \<open>docker.createContainer\<close> is called, once,
  whatever the runtime holds. What comes of the call is for the runtime to say: with the
  image present, a runtime that holds no container of the name creates the container,
  and the server ends as a success; a runtime that holds one (as it does when the server
  had been created before) refuses, and the server ends as an error, with the containers
  as they were.
\<close>

theorem listing_failure_proceeds_to_create:
  assumes "metadataJson dir serverId = Json md" and "nextFault w = Some msg"
  shows "processServer cfg dir hostDataPath serverId w =
           createAndStart cfg hostDataPath serverId md
             ((progress w)\<lparr>faults := tl (faults w), calls := calls w @ [(ListContainers, False)],
                console := console w @ processingLines serverId md @ [LogErrorChecking msg]\<rparr>)
       \<and> (faults w = [Some msg] \<longrightarrow>
            attempts (snd (processServer cfg dir hostDataPath serverId w)) = attempts w + 1)
       \<and> (faults w = [Some msg] \<and> BEDROCK_IMAGE \<in> set (images w)
            \<and> serverId \<notin> Name ` set (containers w) \<longrightarrow>
            fst (processServer cfg dir hostDataPath serverId w) = Inr Completed
            \<and> serverIds (snd (processServer cfg dir hostDataPath serverId w))
                = serverIds w @ [Some serverId])
       \<and> (faults w = [Some msg] \<and> BEDROCK_IMAGE \<in> set (images w)
            \<and> serverId \<in> Name ` set (containers w) \<longrightarrow>
            fst (processServer cfg dir hostDataPath serverId w)
              = Inl (''Conflict. The container name is already in use: '' @ serverId)
            \<and> containers (snd (processServer cfg dir hostDataPath serverId w)) = containers w)"
proof -
  let ?w1 = "(progress w)\<lparr>faults := tl (faults w), calls := calls w @ [(ListContainers, False)],
                console := console w @ processingLines serverId md @ [LogErrorChecking msg]\<rparr>"
  have p: "processServer cfg dir hostDataPath serverId w
        = createAndStart cfg hostDataPath serverId md ?w1"
    using assms by (simp add: processServer_readable checkExisting_refused)
  have reached: "attempts (snd (createAndStart cfg hostDataPath serverId md ?w1)) = attempts w + 1"
    if "faults w = [Some msg]"
  proof -
    from that have "faults ?w1 = [] \<and> attempts ?w1 = attempts w"
      by (simp add: isCreation_def)
    from tripleD [OF reach_createAndStart this] show ?thesis .
  qed
  have created: "fst (createAndStart cfg hostDataPath serverId md ?w1) = Inr Completed
      \<and> serverIds (snd (createAndStart cfg hostDataPath serverId md ?w1))
          = serverIds w @ [Some serverId]"
    if "faults w = [Some msg] \<and> BEDROCK_IMAGE \<in> set (images w)
        \<and> serverId \<notin> Name ` set (containers w)"
  proof -
    from that have "calm (serverIds w) ?w1 \<and> serverId \<notin> Name ` set (containers ?w1)"
      by (simp add: calm_def images_progress)
    from tripleD [OF calm_createAndStart this] show ?thesis by (simp add: calm_def)
  qed
  have refused: "fst (createAndStart cfg hostDataPath serverId md ?w1)
        = Inl (''Conflict. The container name is already in use: '' @ serverId)
      \<and> containers (snd (createAndStart cfg hostDataPath serverId md ?w1)) = containers w"
    if "faults w = [Some msg] \<and> BEDROCK_IMAGE \<in> set (images w)
        \<and> serverId \<in> Name ` set (containers w)"
  proof -
    from that have c: "calm (serverIds w) ?w1" and n: "serverId \<in> Name ` set (containers ?w1)"
      by (simp_all add: calm_def images_progress)
    from conflict_createAndStart [OF c n] show ?thesis by simp
  qed
  from p reached created refused show ?thesis by simp
qed

lemma refusing_example:
  "metadataJson singleDir ''bedrock-a'' = Json survivalMetadata"
  "nextFault refusingWorld = Some ''socket hang up''"
  "faults refusingWorld = [Some ''socket hang up'']"
  "serverIds refusingWorld = [Some ''bedrock-a'']"
  "BEDROCK_IMAGE \<in> set (images refusingWorld)"
  "''bedrock-a'' \<in> Name ` set (containers refusingWorld)"
  "attempts refusingWorld = 0"
  "nextFault (refusingWorld\<lparr>containers := []\<rparr>) = Some ''socket hang up''"
  "faults (refusingWorld\<lparr>containers := []\<rparr>) = [Some ''socket hang up'']"
  "serverIds (refusingWorld\<lparr>containers := []\<rparr>) = []"
  "BEDROCK_IMAGE \<in> set (images (refusingWorld\<lparr>containers := []\<rparr>))"
  "''bedrock-a'' \<notin> Name ` set (containers (refusingWorld\<lparr>containers := []\<rparr>))"
  by (simp_all add: singleDir_def refusingWorld_def settledWorld_def readyWorld_def
      emptyWorld_def nextFault_def serverIds_def existingContainer_def labelOf_def
      attempts_def countCalls_def)

theorem listing_failure_proceeds_to_create_witness:
  "attempts (snd (processServer exampleConfig singleDir ''/opt/minecraft-servers'' ''bedrock-a''
                    refusingWorld)) = 1
   \<and> fst (processServer exampleConfig singleDir ''/opt/minecraft-servers'' ''bedrock-a''
            refusingWorld)
       = Inl ''Conflict. The container name is already in use: bedrock-a''
   \<and> fst (processServer exampleConfig singleDir ''/opt/minecraft-servers'' ''bedrock-a''
            (refusingWorld\<lparr>containers := []\<rparr>)) = Inr Completed
   \<and> serverIds (snd (processServer exampleConfig singleDir ''/opt/minecraft-servers''
                       ''bedrock-a'' (refusingWorld\<lparr>containers := []\<rparr>)))
       = [Some ''bedrock-a'']"
  using listing_failure_proceeds_to_create [OF refusing_example(1,2),
      of exampleConfig "''/opt/minecraft-servers''", THEN conjunct2]
    listing_failure_proceeds_to_create [OF refusing_example(1,8),
      of exampleConfig "''/opt/minecraft-servers''", THEN conjunct2]
  by (simp add: refusing_example)






text \<open>
  C3, as the script has it. A batch over N server directories (N at least 1) always
  reaches the end of the loop and prints the summary: the line
  \<open>Successfully recreated\<close> with the success count, the line \<open>Failed\<close> with the failure
  count when that is not 0, and, when nothing failed and something succeeded, the line
  that all servers are recreated. Every directory ends as a success, as a failure or as
  skipped (successes + failures + skipped = N), every directory with corrupted metadata
  is a failure, and every other failure comes with a call on the runtime that threw
  (the inspection of the image apart). So when no directory is reported skipped and no
  such call throws, the batch prints exactly N - M successes and M failures for M
  directories with corrupted metadata.
\<close>

theorem batch_counts_every_directory:
  assumes "dirExists dir" and "dirEntries dir = Inr items" and "serverDirsOf items \<noteq> []"
  shows "\<exists>successCount failureCount before.
           fst (recreateServers cfg dir w) = Returned
         \<and> console (snd (recreateServers cfg dir w))
             = before @ [LogRule, LogSuccessfullyRecreated successCount]
               @ (if 0 < failureCount then [LogFailed failureCount] else [])
               @ [LogRule]
               @ (if failureCount = 0 \<and> 0 < successCount then [LogAllRecreated] else [])
         \<and> successCount + failureCount + skipped (snd (recreateServers cfg dir w))
             = length (serverDirsOf items) + skipped w
         \<and> length (filter (corrupted dir) (serverDirsOf items)) \<le> failureCount
         \<and> failureCount + failedCalls w
             \<le> length (filter (corrupted dir) (serverDirsOf items))
               + failedCalls (snd (recreateServers cfg dir w))
         \<and> (skipped (snd (recreateServers cfg dir w)) = skipped w
              \<and> failedCalls (snd (recreateServers cfg dir w)) = failedCalls w
            \<longrightarrow> failureCount = length (filter (corrupted dir) (serverDirsOf items))
              \<and> successCount = length (serverDirsOf items)
                                 - length (filter (corrupted dir) (serverDirsOf items)))"
proof -
  let ?dirs = "serverDirsOf items"
  let ?w0 = "loopStart cfg (length ?dirs) w"
  let ?M = "length (filter (corrupted dir) ?dirs)"
  obtain w' s f where loop: "serverLoop cfg dir (resolvedPath cfg w) ?dirs (?w0, 0, 0) = (w', s, f)"
    by (cases "serverLoop cfg dir (resolvedPath cfg w) ?dirs (?w0, 0, 0)")
  have run: "recreateServers cfg dir w
      = (Returned, w'\<lparr>console := console w' @ summaryLines s f\<rparr>)"
    by (simp add: recreateServers_run [OF assms] loop)
  have printed: "console (snd (recreateServers cfg dir w))
      = console w' @ [LogRule, LogSuccessfullyRecreated s]
        @ (if 0 < f then [LogFailed f] else [])
        @ [LogRule]
        @ (if f = 0 \<and> 0 < s then [LogAllRecreated] else [])"
    by (simp add: run summaryLines_def)
  have total: "s + f + skipped (snd (recreateServers cfg dir w)) = length ?dirs + skipped w"
    using serverLoop_counts [OF loop]
    by (simp add: run skipped_def loopStart_skips summaryLines_no_skip)
  have failures: "?M \<le> f"
    using serverLoop_failures [OF loop] by simp
  have thrown: "f + failedCalls w \<le> ?M + failedCalls (snd (recreateServers cfg dir w))"
    using serverLoop_tally [OF loop] loopStart_failed [of w cfg "length ?dirs"]
    by (simp add: run)
  have exact: "f = ?M \<and> s = length ?dirs - ?M"
    if "skipped (snd (recreateServers cfg dir w)) = skipped w
        \<and> failedCalls (snd (recreateServers cfg dir w)) = failedCalls w"
  proof -
    from that thrown failures have "f = ?M" by linarith
    moreover from that total have "s + f = length ?dirs" by linarith
    ultimately show ?thesis by linarith
  qed
  have returned: "fst (recreateServers cfg dir w) = Returned"
    by (simp add: run)
  show ?thesis
    apply (rule exI [of _ s], rule exI [of _ f], rule exI [of _ "console w'"])
    apply (intro conjI impI)
          apply (rule returned)
         apply (rule printed)
        apply (rule total)
       apply (rule failures)
      apply (rule thrown)
     apply (use exact in blast)
    apply (use exact in blast)
    done
qed

lemma pair_example:
  "dirExists pairDir" "dirEntries pairDir = Inr [''bedrock-a'', ''bedrock-b'']"
  "serverDirsOf [''bedrock-a'', ''bedrock-b''] = [''bedrock-a'', ''bedrock-b'']"
  "corrupted pairDir ''bedrock-b''" "\<not> corrupted pairDir ''bedrock-a''"
  "skipped readyWorld = 0" "failedCalls readyWorld = 0"
  by (simp_all add: pairDir_def serverDirsOf_def startsWith_def corrupted_def skipped_def
      countLines_def readyWorld_def emptyWorld_def failedCalls_def countCalls_def)

lemma pair_run:
  "skipped (snd (recreateServers exampleConfig pairDir readyWorld)) = 0"
  "failedCalls (snd (recreateServers exampleConfig pairDir readyWorld)) = 0"
  by code_simp+

theorem batch_counts_every_directory_witness:
  "skipped (snd (recreateServers exampleConfig pairDir readyWorld)) = skipped readyWorld
   \<and> failedCalls (snd (recreateServers exampleConfig pairDir readyWorld)) = failedCalls readyWorld
   \<and> (\<exists>before. console (snd (recreateServers exampleConfig pairDir readyWorld))
         = before @ [LogRule, LogSuccessfullyRecreated 1, LogFailed 1, LogRule])"
proof -
  have ne: "serverDirsOf [''bedrock-a'', ''bedrock-b''] \<noteq> []"
    by (simp add: pair_example)
  from batch_counts_every_directory [OF pair_example(1,2) ne, of exampleConfig readyWorld]
  show ?thesis
    by (auto simp: pair_example pair_run)
qed

text \<open>
  C3 as stated fails: a batch over the one directory \<open>bedrock-a\<close>, whose metadata is
  readable (N = 1, M = 0), in a runtime that refuses nothing and already holds the
  container of \<open>bedrock-a\<close>, makes no call that throws and prints 0 successes and no
  failure, not 1 success.
\<close>

theorem existing_container_is_no_success:
  "serverDirsOf [''bedrock-a''] = [''bedrock-a'']
   \<and> dirEntries singleDir = Inr [''bedrock-a'']
   \<and> filter (corrupted singleDir) [''bedrock-a''] = []
   \<and> faults settledWorld = []
   \<and> failedCalls (snd (recreateServers exampleConfig singleDir settledWorld)) = 0
   \<and> take 3 (rev (console (snd (recreateServers exampleConfig singleDir settledWorld))))
       = [LogRule, LogSuccessfullyRecreated 0, LogRule]
   \<and> LogSuccessfullyRecreated 1
       \<notin> set (console (snd (recreateServers exampleConfig singleDir settledWorld)))"
  by code_simp






text \<open>
  C8. The script does check the image before it creates the container, and awaits
  \<open>docker.pull\<close> where the image is missing (the order of the awaited calls is
  lemma \<open>awaited_calls_in_order\<close>). But the awaited \<open>docker.pull\<close> returns while the pull is under way, and
  the script calls \<open>docker.createContainer\<close> at once. In \<open>slowPullWorld\<close> the image is not
  present and a pull is not complete before two more calls have passed: the run over
  the one server \<open>bedrock-a\<close> inspects the image, which throws, awaits the pull, which
  returns, and calls \<open>createContainer\<close> while the pull is still under way and the image
  not present; the runtime refuses the creation for want of the image, and the server
  is reported failed.
\<close>

theorem creation_races_the_pull:
  "BEDROCK_IMAGE \<notin> set (images slowPullWorld)
   \<and> callKinds (snd (recreateServers exampleConfig singleDir slowPullWorld))
       = [(''listContainers'', True), (''listContainers'', True), (''getImage.inspect'', False),
          (''pull'', True), (''createContainer'', False)]
   \<and> pulling (snd (recreateServers exampleConfig singleDir slowPullWorld))
       = [(BEDROCK_IMAGE, 1)]
   \<and> BEDROCK_IMAGE \<notin> set (images (snd (recreateServers exampleConfig singleDir slowPullWorld)))
   \<and> LogError (''No such image: '' @ BEDROCK_IMAGE)
       \<in> set (console (snd (recreateServers exampleConfig singleDir slowPullWorld)))
   \<and> take 3 (rev (console (snd (recreateServers exampleConfig singleDir slowPullWorld))))
       = [LogRule, LogFailed 1, LogSuccessfullyRecreated 0]"
  by code_simp

end
